(* ===== verification/Prelude.thy ===== *)
theory Prelude
  imports Main "HOL-Library.Word"
begin

text \<open>
  Shared vocabulary of the OpenFlash development: the widths of the C integers, a byte-addressed
  memory with 64-bit wrap-around, little-endian integers and packed structures, the sequencing
  operator for computations that may hit undefined behaviour, and the arithmetic of ring indices.
  The component theories draw on the lemmas collected here in \<open>byte_simps\<close> and on the
  constants collected in \<open>of_consts\<close>.
\<close>

unbundle bit_operations_syntax

section \<open>Machine integers\<close>

type_synonym u8 = "8 word"
type_synonym u16 = "16 word"
type_synonym u32 = "32 word"
type_synonym u64 = "64 word"

named_theorems of_consts \<open>values of the constants defined by the sources\<close>
named_theorems byte_simps \<open>lengths and access laws of byte sequences\<close>

lemma unat_u8_lt: "unat (x :: u8) < 256"
  using unsigned_less [of x] by simp

lemma unat_u16_lt: "unat (x :: u16) < 65536"
  using unsigned_less [of x] by simp

lemma unat_u32_lt: "unat (x :: u32) < 4294967296"
  using unsigned_less [of x] by simp

lemma unat_u64_lt: "unat (x :: u64) < 18446744073709551616"
  using unsigned_less [of x] by simp

lemma unat_ucast_u16_u32 [simp]: "unat (ucast (x :: u16) :: u32) = unat x"
  by (simp add: unsigned_ucast_eq take_bit_nat_eq_self_iff less_trans [OF unat_u16_lt])

lemma unat_ucast_u16_u64 [simp]: "unat (ucast (x :: u16) :: u64) = unat x"
  by (simp add: unsigned_ucast_eq take_bit_nat_eq_self_iff less_trans [OF unat_u16_lt])

lemma unat_ucast_u32_u64 [simp]: "unat (ucast (x :: u32) :: u64) = unat x"
  by (simp add: unsigned_ucast_eq take_bit_nat_eq_self_iff less_trans [OF unat_u32_lt])

lemma unat_ucast_u8_u16 [simp]: "unat (ucast (x :: u8) :: u16) = unat x"
  by (simp add: unsigned_ucast_eq take_bit_nat_eq_self_iff less_trans [OF unat_u8_lt])

lemma unat_ucast_u32_u16: "unat (ucast (x :: u32) :: u16) = unat x mod 65536"
  by (simp add: unsigned_ucast_eq take_bit_eq_mod)

lemma unat_eq_iff: "unat x = unat y \<longleftrightarrow> x = y"
  by (simp add: word_unat_eq_iff)

section \<open>Computations that may fault\<close>

text \<open>Sequencing of computations whose left summand is a fault: the first fault wins.\<close>

fun and_then :: "'e + 'a \<Rightarrow> ('a \<Rightarrow> 'e + 'b) \<Rightarrow> 'e + 'b" where
  "and_then (Inl e) f = Inl e"
| "and_then (Inr a) f = f a"

lemma and_then_cong [fundef_cong]:
  "m = m' \<Longrightarrow> (\<And>a. m' = Inr a \<Longrightarrow> f a = g a) \<Longrightarrow> and_then m f = and_then m' g"
  by (cases m') auto

lemma and_then_eq_Inr: "and_then m f = Inr b \<longleftrightarrow> (\<exists>a. m = Inr a \<and> f a = Inr b)"
  by (cases m) auto

section \<open>Little-endian integers and packed structures\<close>

text \<open>The \<open>n\<close> little-endian bytes of a natural number, and the number a byte sequence denotes.\<close>

primrec le_bytes :: "nat \<Rightarrow> nat \<Rightarrow> u8 list" where
  "le_bytes 0 v = []"
| "le_bytes (Suc n) v = of_nat v # le_bytes n (v div 256)"

primrec le_val :: "u8 list \<Rightarrow> nat" where
  "le_val [] = 0"
| "le_val (b # bs) = unat b + 256 * le_val bs"

lemma length_le_bytes [simp, byte_simps]: "length (le_bytes n v) = n"
  by (induction n arbitrary: v) auto

lemma unat_of_nat_u8: "unat (of_nat v :: u8) = v mod 256"
  by (simp add: unat_of_nat)

lemma le_val_le_bytes: "le_val (le_bytes n v) = v mod 256 ^ n"
proof (induction n arbitrary: v)
  case 0
  then show ?case by simp
next
  case (Suc n)
  have "v mod (256 * 256 ^ n) = 256 * (v div 256 mod 256 ^ n) + v mod 256"
    by (rule mod_mult2_eq)
  with Suc show ?case by (simp add: unat_of_nat_u8)
qed

lemma le_val_bound: "le_val bs < 256 ^ length bs"
proof (induction bs)
  case Nil
  then show ?case by simp
next
  case (Cons b bs)
  have "le_val bs + 1 \<le> 256 ^ length bs" using Cons by simp
  then have "256 * (le_val bs + 1) \<le> 256 * 256 ^ length bs" by (rule mult_le_mono2)
  then show ?case using unat_u8_lt [of b] unfolding le_val.simps list.size by simp
qed

lemma le_bytes_le_val: "le_bytes (length bs) (le_val bs) = bs"
proof (induction bs)
  case Nil
  then show ?case by simp
next
  case (Cons b bs)
  have "(of_nat (unat b + 256 * le_val bs) :: u8) = b"
    unfolding word_unat_eq_iff unat_of_nat_u8 using unat_u8_lt [of b] by simp
  moreover have "(unat b + 256 * le_val bs) div 256 = le_val bs"
    using unat_u8_lt [of b] by simp
  ultimately show ?case using Cons by simp
qed

text \<open>
  A packed structure is the concatenation of its little-endian fields; \<open>pack\<close> takes each field
  as (width in bytes, value), \<open>unpack\<close> takes the widths.
\<close>

primrec pack :: "(nat \<times> nat) list \<Rightarrow> u8 list" where
  "pack [] = []"
| "pack (f # fs) = le_bytes (fst f) (snd f) @ pack fs"

primrec unpack :: "nat list \<Rightarrow> u8 list \<Rightarrow> nat list" where
  "unpack [] bs = []"
| "unpack (n # ns) bs = le_val (take n bs) # unpack ns (drop n bs)"

lemma length_pack [byte_simps]: "length (pack fs) = sum_list (map fst fs)"
  by (induction fs) auto

lemma unpack_pack:
  "unpack (map fst fs) (pack fs) = map (\<lambda>f. snd f mod 256 ^ fst f) fs"
  by (induction fs) (auto simp: le_val_le_bytes)

lemma length_unpack [simp, byte_simps]: "length (unpack ns bs) = length ns"
  by (induction ns arbitrary: bs) auto

lemma pack_unpack:
  "length bs = sum_list ns \<Longrightarrow> pack (zip ns (unpack ns bs)) = bs"
proof (induction ns arbitrary: bs)
  case Nil
  then show ?case by simp
next
  case (Cons n ns)
  then have "length (take n bs) = n" by simp
  then have "le_bytes n (le_val (take n bs)) = take n bs"
    using le_bytes_le_val [of "take n bs"] by simp
  with Cons show ?case by simp
qed

lemma unpack_nth_bound:
  "i < length ns \<Longrightarrow> unpack ns bs ! i < 256 ^ (ns ! i)"
proof (induction ns arbitrary: bs i)
  case Nil
  then show ?case by simp
next
  case (Cons n ns)
  have "le_val (take n bs) < 256 ^ n"
    by (rule less_le_trans [OF le_val_bound]) simp
  with Cons show ?case by (cases i) auto
qed

section \<open>Byte-addressed memory\<close>

type_synonym mem = "u64 \<Rightarrow> u8"

definition mem_load :: "mem \<Rightarrow> u64 \<Rightarrow> nat \<Rightarrow> u8 list" where
  "mem_load m a n = map (\<lambda>i. m (a + of_nat i)) [0..<n]"

definition mem_store :: "mem \<Rightarrow> u64 \<Rightarrow> u8 list \<Rightarrow> mem" where
  "mem_store m a bs = (\<lambda>x. if unat (x - a) < length bs then bs ! unat (x - a) else m x)"

text \<open>Two regions, given by address and length, have no byte in common.\<close>

definition apart :: "u64 \<Rightarrow> nat \<Rightarrow> u64 \<Rightarrow> nat \<Rightarrow> bool" where
  "apart a n b k \<longleftrightarrow> n \<le> unat (b - a) \<and> k \<le> unat (a - b)"

lemma apart_sym: "apart a n b k \<longleftrightarrow> apart b k a n"
  by (auto simp: apart_def)

lemma apart_mono: "apart a n b k \<Longrightarrow> n' \<le> n \<Longrightarrow> k' \<le> k \<Longrightarrow> apart a n' b k'"
  by (auto simp: apart_def)

lemma length_mem_load [simp, byte_simps]: "length (mem_load m a n) = n"
  by (simp add: mem_load_def)

lemma unat_of_nat_u64: "i < 2 ^ 64 \<Longrightarrow> unat (of_nat i :: u64) = i"
  by (simp add: unat_of_nat)

lemma mem_load_store_same:
  assumes "length bs \<le> 2 ^ 64"
  shows "mem_load (mem_store m a bs) a (length bs) = bs"
  using assms by (auto intro!: nth_equalityI simp: mem_load_def mem_store_def unat_of_nat_u64)

lemma unat_diff_of_nat:
  assumes "j \<le> i" "i < 2 ^ 64"
  shows "unat (of_nat i - of_nat j :: u64) = i - j"
  using assms by (metis less_imp_diff_less of_nat_diff unat_of_nat_u64)

lemma apart_disjoint:
  assumes ap: "apart a n b k" and i: "i < n"
  shows "\<not> unat (a + of_nat i - b) < k"
proof
  define j where "j = unat (a + of_nat i - b)"
  assume "unat (a + of_nat i - b) < k"
  then have jk: "j < k" by (simp add: j_def)
  have n64: "n < 2 ^ 64" and k64: "k < 2 ^ 64"
    using ap le_less_trans [OF _ unat_u64_lt] by (auto simp: apart_def)
  have eq: "a + of_nat i = b + of_nat j" by (simp add: j_def)
  show False
  proof (cases "j \<le> i")
    case True
    have "b - a = of_nat i - of_nat j" using eq by (simp add: algebra_simps)
    then have "unat (b - a) = i - j" using True i n64 unat_diff_of_nat [of j i] by simp
    with ap i show False by (auto simp: apart_def)
  next
    case False
    have "a - b = of_nat j - of_nat i" using eq by (simp add: algebra_simps)
    then have "unat (a - b) = j - i" using False jk k64 unat_diff_of_nat [of i j] by simp
    with ap jk show False by (auto simp: apart_def)
  qed
qed

lemma mem_load_store_apart:
  assumes "apart a n b (length bs)"
  shows "mem_load (mem_store m b bs) a n = mem_load m a n"
  using apart_disjoint [OF assms] by (auto simp: mem_load_def mem_store_def)

text \<open>Two slots of an array of \<open>sz\<close>-byte elements that does not wrap the address space.\<close>

lemma array_slots_apart:
  assumes "i \<noteq> j" "i < d" "j < d" "d * sz < 2 ^ 64"
  shows "apart (base + of_nat i * of_nat sz) sz (base + of_nat j * of_nat sz) sz"
proof -
  have *: "sz \<le> unat (of_nat y * of_nat sz - of_nat x * of_nat sz :: u64)"
    if xy: "x \<noteq> y" "x < d" "y < d" for x y
  proof (cases "x < y")
    case True
    have "x * sz + sz \<le> y * sz" using True by (metis Suc_leI mult_Suc add.commute mult_le_mono1)
    moreover have "y * sz < 2 ^ 64" using xy assms(4) by (metis le_less_trans less_imp_le mult_le_mono1)
    ultimately have "unat (of_nat (y * sz) - of_nat (x * sz) :: u64) = y * sz - x * sz"
      by (intro unat_diff_of_nat) linarith+
    with \<open>x * sz + sz \<le> y * sz\<close> show ?thesis by simp
  next
    case False
    with xy have "y < x" by simp
    then have le: "y * sz + sz \<le> x * sz" by (metis Suc_leI mult_Suc add.commute mult_le_mono1)
    have xd: "x * sz + sz \<le> d * sz" using xy by (metis Suc_leI mult_Suc add.commute mult_le_mono1)
    show ?thesis
    proof (cases "sz = 0")
      case False
      define D where "D = x * sz - y * sz"
      have D: "0 < D" "D + sz \<le> 2 ^ 64" "D < 2 ^ 64"
        using le xd assms(4) False unfolding D_def by linarith+
      have "(of_nat (x * sz) - of_nat (y * sz) :: u64) = of_nat D"
        unfolding D_def by (rule of_nat_diff [symmetric]) (use le in linarith)
      then have "(of_nat y * of_nat sz - of_nat x * of_nat sz :: u64) = - of_nat D"
        by (metis minus_diff_eq of_nat_mult)
      moreover have "unat (- of_nat D :: u64) = 2 ^ 64 - D"
        using D unat_sub_if' [of 0 "of_nat D :: u64"] by (simp add: unat_of_nat_u64)
      ultimately show ?thesis using D by simp
    qed simp
  qed
  show ?thesis using * [of i j] * [of j i] assms by (simp add: apart_def)
qed

text \<open>Parts of regions that are apart.\<close>

lemma unat_diff_swap: "(a :: u64) \<noteq> b \<Longrightarrow> unat (a - b) + unat (b - a) = 2 ^ 64"
  using unat_sub_if' [of a b] unat_sub_if' [of b a] unat_u64_lt [of a] unat_u64_lt [of b]
  by (auto simp: word_unat_eq_iff)

lemma apart_sub:
  assumes "apart a n b k" "i + n' \<le> n" "j + k' \<le> k" "0 < n'" "0 < k'"
  shows "apart (a + of_nat i) n' (b + of_nat j) k'"
proof -
  have h: "unat ((b + of_nat j) - (a + of_nat i)) = unat (b - a) + j - i"
    if "apart a n b k" "i + n' \<le> n" "j + k' \<le> k" "0 < n'" "0 < k'" for a b :: u64 and i j n k n' k'
  proof -
    have ne: "a \<noteq> b" using that by (auto simp: apart_def)
    define D where "D = unat (b - a)"
    have D: "n \<le> D" "D + k \<le> 2 ^ 64" using that(1) unat_diff_swap [OF ne] by (auto simp: apart_def D_def)
    have "(b + of_nat j) - (a + of_nat i) = of_nat D + of_nat j - (of_nat i :: u64)" by (simp add: D_def)
    also have "\<dots> = of_nat (D + j - i)" using D(1) that(2) by (simp add: of_nat_diff)
    finally have "unat ((b + of_nat j) - (a + of_nat i)) = D + j - i"
      using D that(2-5) by (simp only: unat_of_nat_u64)
    then show ?thesis by (simp add: D_def)
  qed
  have "unat ((b + of_nat j) - (a + of_nat i)) = unat (b - a) + j - i" by (rule h [OF assms])
  moreover have "unat ((a + of_nat i) - (b + of_nat j)) = unat (a - b) + i - j"
    using assms by (intro h [of b k a n j k' i n']) (simp_all add: apart_sym [of b])
  ultimately show ?thesis using assms by (auto simp: apart_def)
qed

lemma mem_load_slice:
  assumes "i + k \<le> n"
  shows "mem_load m (a + of_nat i) k = take k (drop i (mem_load m a n))"
  using assms by (auto intro!: nth_equalityI simp: mem_load_def add.assoc)

lemma mem_load_store_sub:
  assumes "apart a n b k" "i + n' \<le> n" "j + length bs \<le> k" "0 < n'" "bs \<noteq> []"
  shows "mem_load (mem_store m (b + of_nat j) bs) (a + of_nat i) n' = mem_load m (a + of_nat i) n'"
  using assms by (intro mem_load_store_apart apart_sub [of a n b k]) auto

section \<open>Parts of a byte sequence\<close>

definition chunk :: "'a list \<Rightarrow> nat \<Rightarrow> nat \<Rightarrow> 'a list" where
  "chunk xs off n = take n (drop off xs)"

definition splice_at :: "'a list \<Rightarrow> nat \<Rightarrow> 'a list \<Rightarrow> 'a list" where
  "splice_at xs off ys = take off xs @ ys @ drop (off + length ys) xs"

text \<open>Equal lengths and equal contents outside \<open>[off, off + n)\<close>.\<close>

definition same_outside :: "nat \<Rightarrow> nat \<Rightarrow> 'a list \<Rightarrow> 'a list \<Rightarrow> bool" where
  "same_outside off n xs ys \<longleftrightarrow>
     length ys = length xs \<and> take off ys = take off xs \<and> drop (off + n) ys = drop (off + n) xs"

lemma length_chunk [byte_simps]: "length (chunk xs off n) = min n (length xs - off)"
  by (simp add: chunk_def min.commute)

lemma length_splice_at [byte_simps]:
  "off + length ys \<le> length xs \<Longrightarrow> length (splice_at xs off ys) = length xs"
  by (simp add: splice_at_def)

lemma chunk_splice_same:
  "off + length ys \<le> length xs \<Longrightarrow> chunk (splice_at xs off ys) off (length ys) = ys"
  by (simp add: chunk_def splice_at_def)

lemma splice_at_chunk:
  "off + n \<le> length xs \<Longrightarrow> splice_at xs off (chunk xs off n) = xs"
  by (simp add: chunk_def splice_at_def add.commute)
    (metis append_take_drop_id drop_drop add.commute)

lemma splice_at_Nil [simp]: "splice_at xs off [] = xs"
  by (simp add: splice_at_def)

lemma splice_at_append:
  assumes "off + length ys + length zs \<le> length xs"
  shows "splice_at (splice_at xs off ys) (off + length ys) zs = splice_at xs off (ys @ zs)"
  using assms by (simp add: splice_at_def ac_simps)

lemma same_outside_refl [simp]: "same_outside off n xs xs"
  by (simp add: same_outside_def)

lemma same_outside_trans:
  "same_outside off n xs ys \<Longrightarrow> same_outside off n ys zs \<Longrightarrow> same_outside off n xs zs"
  by (simp add: same_outside_def)

lemma same_outside_splice_at:
  assumes "off \<le> o2" "o2 + length ys \<le> off + n" "off + n \<le> length xs"
  shows "same_outside off n xs (splice_at xs o2 ys)"
proof -
  have 1: "length (splice_at xs o2 ys) = length xs" using assms by (simp add: splice_at_def)
  have 2: "take off (splice_at xs o2 ys) = take off xs"
    using assms by (simp add: splice_at_def min_def)
  have "off + n - o2 - length ys + (o2 + length ys) = off + n" using assms by simp
  then have 3: "drop (off + n) (splice_at xs o2 ys) = drop (off + n) xs"
    using assms by (simp add: splice_at_def)
  show ?thesis using 1 2 3 by (simp add: same_outside_def)
qed

lemma same_outside_chunk:
  assumes "same_outside off n xs ys" "o2 + k \<le> off \<or> off + n \<le> o2"
  shows "chunk ys o2 k = chunk xs o2 k"
proof (cases "o2 + k \<le> off")
  case True
  have "chunk zs o2 k = take k (drop o2 (take off zs))" for zs :: "'a list"
    using True by (simp add: chunk_def drop_take min_def)
  then show ?thesis using assms(1) by (simp add: same_outside_def)
next
  case False
  then have *: "off + n \<le> o2" using assms(2) by simp
  have "chunk zs o2 k = take k (drop (o2 - (off + n)) (drop (off + n) zs))" for zs :: "'a list"
    using * by (simp add: chunk_def)
  then show ?thesis using assms(1) by (simp only: same_outside_def)
qed

end
