(* ===== verification/Abi.thy ===== *)
theory Abi
  imports Prelude
begin

text \<open>
  The host/controller ABI as the driver declares it in
  \<^verbatim>\<open>src/driver/openflash/openflash_abi.h\<close>: register offsets, capability, control and
  status bits, opcodes, status codes, and the three packed little-endian structures that cross
  the DMA boundary.  The locale \<open>packed_struct\<close> states what a client may rely on for any such
  structure (fixed size, lossless encoding) and derives once how arrays of them behave in memory.
\<close>

section \<open>Registers, capabilities, opcodes and status codes\<close>

definition OPENFLASH_ABI_VERSION_MAJOR :: u32 where
  [of_consts]: "OPENFLASH_ABI_VERSION_MAJOR = 0"

definition OPENFLASH_ABI_VERSION_MINOR :: u32 where
  [of_consts]: "OPENFLASH_ABI_VERSION_MINOR = 2"

definition OPENFLASH_ABI_VERSION :: u32 where
  [of_consts]: "OPENFLASH_ABI_VERSION =
     push_bit 16 OPENFLASH_ABI_VERSION_MAJOR OR OPENFLASH_ABI_VERSION_MINOR"

definition OPENFLASH_REG_ABI_VERSION :: u64 where
  [of_consts]: "OPENFLASH_REG_ABI_VERSION = 0x0000"

definition OPENFLASH_REG_CAPABILITIES :: u64 where
  [of_consts]: "OPENFLASH_REG_CAPABILITIES = 0x0008"

definition OPENFLASH_REG_CONTROL :: u64 where
  [of_consts]: "OPENFLASH_REG_CONTROL = 0x0010"

definition OPENFLASH_REG_STATUS :: u64 where
  [of_consts]: "OPENFLASH_REG_STATUS = 0x0014"

definition OPENFLASH_REG_ADMIN_SQ_LO :: u64 where
  [of_consts]: "OPENFLASH_REG_ADMIN_SQ_LO = 0x0020"

definition OPENFLASH_REG_ADMIN_SQ_HI :: u64 where
  [of_consts]: "OPENFLASH_REG_ADMIN_SQ_HI = 0x0024"

definition OPENFLASH_REG_ADMIN_CQ_LO :: u64 where
  [of_consts]: "OPENFLASH_REG_ADMIN_CQ_LO = 0x0028"

definition OPENFLASH_REG_ADMIN_CQ_HI :: u64 where
  [of_consts]: "OPENFLASH_REG_ADMIN_CQ_HI = 0x002c"

definition OPENFLASH_REG_ADMIN_QSIZE :: u64 where
  [of_consts]: "OPENFLASH_REG_ADMIN_QSIZE = 0x0030"

definition OPENFLASH_REG_DOORBELL_BASE :: u64 where
  [of_consts]: "OPENFLASH_REG_DOORBELL_BASE = 0x1000"

definition OPENFLASH_REG_DOORBELL_STRIDE :: u64 where
  [of_consts]: "OPENFLASH_REG_DOORBELL_STRIDE = 0x0008"

definition OPENFLASH_SQ_TAIL_DB :: "u16 \<Rightarrow> u64" where
  [of_consts]: "OPENFLASH_SQ_TAIL_DB qid =
     OPENFLASH_REG_DOORBELL_BASE + ucast qid * OPENFLASH_REG_DOORBELL_STRIDE"

definition OPENFLASH_CQ_HEAD_DB :: "u16 \<Rightarrow> u64" where
  [of_consts]: "OPENFLASH_CQ_HEAD_DB qid = OPENFLASH_SQ_TAIL_DB qid + 4"

definition OPENFLASH_CAP_FLUSH :: u64 where
  [of_consts]: "OPENFLASH_CAP_FLUSH = push_bit 0 1"

definition OPENFLASH_CAP_FUA :: u64 where
  [of_consts]: "OPENFLASH_CAP_FUA = push_bit 1 1"

definition OPENFLASH_CAP_DISCARD :: u64 where
  [of_consts]: "OPENFLASH_CAP_DISCARD = push_bit 2 1"

definition OPENFLASH_CAP_ECC_TELEMETRY :: u64 where
  [of_consts]: "OPENFLASH_CAP_ECC_TELEMETRY = push_bit 3 1"

definition OPENFLASH_CAP_FAULT_INJECTION :: u64 where
  [of_consts]: "OPENFLASH_CAP_FAULT_INJECTION = push_bit 4 1"

definition OPENFLASH_CTRL_ENABLE :: u32 where
  [of_consts]: "OPENFLASH_CTRL_ENABLE = push_bit 0 1"

definition OPENFLASH_CTRL_RESET :: u32 where
  [of_consts]: "OPENFLASH_CTRL_RESET = push_bit 1 1"

definition OPENFLASH_STATUS_READY :: u32 where
  [of_consts]: "OPENFLASH_STATUS_READY = push_bit 0 1"

definition OPENFLASH_STATUS_FATAL :: u32 where
  [of_consts]: "OPENFLASH_STATUS_FATAL = push_bit 1 1"

text \<open>The enumerations fix numeric values, so they are mapped to the bytes and half-words the
  structures carry.\<close>

datatype openflash_opcode = OPENFLASH_OP_READ | OPENFLASH_OP_WRITE | OPENFLASH_OP_FLUSH
  | OPENFLASH_OP_DISCARD | OPENFLASH_ADMIN_IDENTIFY | OPENFLASH_ADMIN_CREATE_IOQ
  | OPENFLASH_ADMIN_DELETE_IOQ | OPENFLASH_ADMIN_GET_LOG

fun opcode_value :: "openflash_opcode \<Rightarrow> u8" where
  "opcode_value OPENFLASH_OP_READ = 0x01"
| "opcode_value OPENFLASH_OP_WRITE = 0x02"
| "opcode_value OPENFLASH_OP_FLUSH = 0x03"
| "opcode_value OPENFLASH_OP_DISCARD = 0x04"
| "opcode_value OPENFLASH_ADMIN_IDENTIFY = 0x80"
| "opcode_value OPENFLASH_ADMIN_CREATE_IOQ = 0x81"
| "opcode_value OPENFLASH_ADMIN_DELETE_IOQ = 0x82"
| "opcode_value OPENFLASH_ADMIN_GET_LOG = 0x83"

datatype openflash_status_code = OPENFLASH_SC_SUCCESS | OPENFLASH_SC_INVALID_OPCODE
  | OPENFLASH_SC_INVALID_FIELD | OPENFLASH_SC_LBA_RANGE | OPENFLASH_SC_MEDIA_ERROR
  | OPENFLASH_SC_ECC_UNCORRECTABLE | OPENFLASH_SC_ABORTED | OPENFLASH_SC_INTERNAL

fun status_value :: "openflash_status_code \<Rightarrow> u16" where
  "status_value OPENFLASH_SC_SUCCESS = 0"
| "status_value OPENFLASH_SC_INVALID_OPCODE = 1"
| "status_value OPENFLASH_SC_INVALID_FIELD = 2"
| "status_value OPENFLASH_SC_LBA_RANGE = 3"
| "status_value OPENFLASH_SC_MEDIA_ERROR = 4"
| "status_value OPENFLASH_SC_ECC_UNCORRECTABLE = 5"
| "status_value OPENFLASH_SC_ABORTED = 6"
| "status_value OPENFLASH_SC_INTERNAL = 7"

definition OPENFLASH_CREATE_IOQ_CONTROL :: "u16 \<Rightarrow> u16 \<Rightarrow> u32" where
  "OPENFLASH_CREATE_IOQ_CONTROL qid vector = push_bit 16 (ucast vector) OR ucast qid"

definition OPENFLASH_CQE_PHASE :: u16 where
  [of_consts]: "OPENFLASH_CQE_PHASE = push_bit 0 1"

definition OPENFLASH_CMD_F_FUA :: u8 where
  [of_consts]: "OPENFLASH_CMD_F_FUA = push_bit 0 1"

definition OPENFLASH_CMD_F_SGL :: u8 where
  [of_consts]: "OPENFLASH_CMD_F_SGL = push_bit 1 1"

definition OPENFLASH_SGL_COUNT_MASK :: u32 where
  [of_consts]: "OPENFLASH_SGL_COUNT_MASK = 0xffff"

definition OPENFLASH_MAX_SGL_ENTRIES :: nat where
  [of_consts]: "OPENFLASH_MAX_SGL_ENTRIES = 16"

section \<open>The packed structures\<close>

text \<open>Fields hold the CPU value; the encoders write them little-endian, as the
  \<^verbatim>\<open>__le16\<close>, \<^verbatim>\<open>__le32\<close> and \<^verbatim>\<open>__le64\<close>
  members with \<^verbatim>\<open>cpu_to_le*\<close> do.\<close>

record openflash_command =
  oc_opcode :: u8
  oc_flags :: u8
  oc_qid :: u16
  oc_cid :: u16
  oc_reserved0 :: u16
  oc_lba :: u64
  oc_nblocks :: u32
  oc_control :: u32
  oc_data_addr :: u64
  oc_metadata_addr :: u64
  oc_user_data :: u64
  oc_reserved1 :: "u64 \<times> u64"

record openflash_completion =
  oe_result :: u64
  oe_user_data :: u64
  oe_sq_head :: u16
  oe_cid :: u16
  oe_status :: u16
  oe_flags :: u16
  oe_reserved :: "u64 \<times> u64 \<times> u64 \<times> u64 \<times> u64"

record openflash_sgl_desc =
  od_addr :: u64
  od_length :: u32
  od_reserved :: u32

definition zero_command :: openflash_command where
  "zero_command = \<lparr>oc_opcode = 0, oc_flags = 0, oc_qid = 0, oc_cid = 0, oc_reserved0 = 0,
     oc_lba = 0, oc_nblocks = 0, oc_control = 0, oc_data_addr = 0, oc_metadata_addr = 0,
     oc_user_data = 0, oc_reserved1 = (0, 0)\<rparr>"

definition command_widths :: "nat list" where
  "command_widths = [1, 1, 2, 2, 2, 8, 4, 4, 8, 8, 8, 8, 8]"

definition completion_widths :: "nat list" where
  "completion_widths = [8, 8, 2, 2, 2, 2, 8, 8, 8, 8, 8]"

definition sgl_desc_widths :: "nat list" where
  "sgl_desc_widths = [8, 4, 4]"

definition enc_command :: "openflash_command \<Rightarrow> u8 list" where
  "enc_command c = pack (zip command_widths
     [unat (oc_opcode c), unat (oc_flags c), unat (oc_qid c), unat (oc_cid c),
      unat (oc_reserved0 c), unat (oc_lba c), unat (oc_nblocks c), unat (oc_control c),
      unat (oc_data_addr c), unat (oc_metadata_addr c), unat (oc_user_data c),
      unat (fst (oc_reserved1 c)), unat (snd (oc_reserved1 c))])"

definition dec_command :: "u8 list \<Rightarrow> openflash_command" where
  "dec_command bs = (let v = unpack command_widths bs in
     \<lparr>oc_opcode = of_nat (v ! 0), oc_flags = of_nat (v ! 1), oc_qid = of_nat (v ! 2),
      oc_cid = of_nat (v ! 3), oc_reserved0 = of_nat (v ! 4), oc_lba = of_nat (v ! 5),
      oc_nblocks = of_nat (v ! 6), oc_control = of_nat (v ! 7), oc_data_addr = of_nat (v ! 8),
      oc_metadata_addr = of_nat (v ! 9), oc_user_data = of_nat (v ! 10),
      oc_reserved1 = (of_nat (v ! 11), of_nat (v ! 12))\<rparr>)"

definition enc_completion :: "openflash_completion \<Rightarrow> u8 list" where
  "enc_completion c = (case oe_reserved c of (r0, r1, r2, r3, r4) \<Rightarrow> pack (zip completion_widths
     [unat (oe_result c), unat (oe_user_data c), unat (oe_sq_head c), unat (oe_cid c),
      unat (oe_status c), unat (oe_flags c), unat r0, unat r1, unat r2, unat r3, unat r4]))"

definition dec_completion :: "u8 list \<Rightarrow> openflash_completion" where
  "dec_completion bs = (let v = unpack completion_widths bs in
     \<lparr>oe_result = of_nat (v ! 0), oe_user_data = of_nat (v ! 1), oe_sq_head = of_nat (v ! 2),
      oe_cid = of_nat (v ! 3), oe_status = of_nat (v ! 4), oe_flags = of_nat (v ! 5),
      oe_reserved = (of_nat (v ! 6), of_nat (v ! 7), of_nat (v ! 8), of_nat (v ! 9),
        of_nat (v ! 10))\<rparr>)"

definition enc_sgl_desc :: "openflash_sgl_desc \<Rightarrow> u8 list" where
  "enc_sgl_desc d = pack (zip sgl_desc_widths
     [unat (od_addr d), unat (od_length d), unat (od_reserved d)])"

definition dec_sgl_desc :: "u8 list \<Rightarrow> openflash_sgl_desc" where
  "dec_sgl_desc bs = (let v = unpack sgl_desc_widths bs in
     \<lparr>od_addr = of_nat (v ! 0), od_length = of_nat (v ! 1), od_reserved = of_nat (v ! 2)\<rparr>)"

section \<open>Packed structures in memory\<close>

locale packed_struct =
  fixes enc :: "'a \<Rightarrow> u8 list" and dec :: "u8 list \<Rightarrow> 'a" and sz :: nat
  assumes length_enc: "length (enc x) = sz"
    and dec_enc: "dec (enc x) = x"
    and enc_dec: "length bs = sz \<Longrightarrow> enc (dec bs) = bs"
    and sz_bound: "sz \<le> 2 ^ 32"
begin

lemma enc_inject: "enc x = enc y \<longleftrightarrow> x = y"
  by (metis dec_enc)

lemma load_stored: "dec (mem_load (mem_store m a (enc x)) a sz) = x"
  using mem_load_store_same [of "enc x" m a] sz_bound by (simp add: length_enc dec_enc)

lemma load_other_slot:
  assumes "i \<noteq> j" "i < d" "j < d" "d < 2 ^ 31"
  shows "mem_load (mem_store m (base + of_nat j * of_nat sz) (enc x)) (base + of_nat i * of_nat sz) sz
    = mem_load m (base + of_nat i * of_nat sz) sz"
proof -
  have "d * sz \<le> d * 2 ^ 32" using sz_bound by simp
  also have "\<dots> < 2 ^ 64" using assms(4) by simp
  finally have "apart (base + of_nat i * of_nat sz) sz (base + of_nat j * of_nat sz) (length (enc x))"
    using assms by (simp add: length_enc array_slots_apart)
  then show ?thesis by (rule mem_load_store_apart)
qed

end

lemmas struct_defs = enc_command_def dec_command_def enc_completion_def dec_completion_def
  enc_sgl_desc_def dec_sgl_desc_def command_widths_def completion_widths_def sgl_desc_widths_def

lemma of_nat_unat_mod [simp]:
  "(of_nat (unat (a :: u8) mod 256) :: u8) = a"
  "(of_nat (unat (b :: u16) mod 65536) :: u16) = b"
  "(of_nat (unat (c :: u32) mod 4294967296) :: u32) = c"
  "(of_nat (unat (d :: u64) mod 18446744073709551616) :: u64) = d"
  by (simp_all add: unat_u8_lt unat_u16_lt unat_u32_lt unat_u64_lt)

lemma unat_of_nat_bounded:
  "v < 256 \<Longrightarrow> unat (of_nat v :: u8) = v"
  "v < 65536 \<Longrightarrow> unat (of_nat v :: u16) = v"
  "v < 4294967296 \<Longrightarrow> unat (of_nat v :: u32) = v"
  "v < 18446744073709551616 \<Longrightarrow> unat (of_nat v :: u64) = v"
  by (simp_all add: unat_of_nat)

lemma list_of_nths:
  "length v = 3 \<Longrightarrow> [v ! 0, v ! 1, v ! 2] = v"
  "length v = 11 \<Longrightarrow> [v ! 0, v ! 1, v ! 2, v ! 3, v ! 4, v ! 5, v ! 6, v ! 7, v ! 8, v ! 9, v ! 10] = v"
  "length v = 13 \<Longrightarrow> [v ! 0, v ! 1, v ! 2, v ! 3, v ! 4, v ! 5, v ! 6, v ! 7, v ! 8, v ! 9, v ! 10,
     v ! 11, v ! 12] = v"
  by (auto simp: list_eq_iff_nth_eq nth_Cons' less_Suc_eq numeral_eq_Suc)

lemma dec_enc_command: "dec_command (enc_command c) = c"
  by (simp add: struct_defs le_val_le_bytes)

lemma dec_enc_completion: "dec_completion (enc_completion c) = c"
  by (cases c) (simp add: struct_defs le_val_le_bytes split: prod.splits)

lemma dec_enc_sgl_desc: "dec_sgl_desc (enc_sgl_desc d) = d"
  by (simp add: struct_defs le_val_le_bytes)

lemma enc_dec_command:
  assumes "length bs = 64"
  shows "enc_command (dec_command bs) = bs"
proof -
  define v where "v = unpack command_widths bs"
  have b: "v ! i < 256 ^ (command_widths ! i)" if "i < 13" for i
    using unpack_nth_bound [of i command_widths bs] that by (simp add: v_def command_widths_def)
  have "enc_command (dec_command bs) = pack (zip command_widths
      [v ! 0, v ! 1, v ! 2, v ! 3, v ! 4, v ! 5, v ! 6, v ! 7, v ! 8, v ! 9, v ! 10, v ! 11, v ! 12])"
    using b [of 0] b [of 1] b [of 2] b [of 3] b [of 4] b [of 5] b [of 6] b [of 7] b [of 8]
      b [of 9] b [of 10] b [of 11] b [of 12]
    unfolding enc_command_def dec_command_def Let_def v_def [symmetric]
    by (simp add: command_widths_def unat_of_nat_bounded)
  also have "\<dots> = pack (zip command_widths v)"
    by (subst list_of_nths) (simp_all add: v_def command_widths_def)
  also have "\<dots> = bs"
    unfolding v_def by (rule pack_unpack) (simp add: assms command_widths_def)
  finally show ?thesis .
qed

lemma enc_dec_completion:
  assumes "length bs = 64"
  shows "enc_completion (dec_completion bs) = bs"
proof -
  define v where "v = unpack completion_widths bs"
  have b: "v ! i < 256 ^ (completion_widths ! i)" if "i < 11" for i
    using unpack_nth_bound [of i completion_widths bs] that by (simp add: v_def completion_widths_def)
  have "enc_completion (dec_completion bs) = pack (zip completion_widths
      [v ! 0, v ! 1, v ! 2, v ! 3, v ! 4, v ! 5, v ! 6, v ! 7, v ! 8, v ! 9, v ! 10])"
    using b [of 0] b [of 1] b [of 2] b [of 3] b [of 4] b [of 5] b [of 6] b [of 7] b [of 8]
      b [of 9] b [of 10]
    unfolding enc_completion_def dec_completion_def Let_def v_def [symmetric]
    by (simp add: completion_widths_def unat_of_nat_bounded)
  also have "\<dots> = pack (zip completion_widths v)"
    by (subst list_of_nths) (simp_all add: v_def completion_widths_def)
  also have "\<dots> = bs"
    unfolding v_def by (rule pack_unpack) (simp add: assms completion_widths_def)
  finally show ?thesis .
qed

lemma enc_dec_sgl_desc:
  assumes "length bs = 16"
  shows "enc_sgl_desc (dec_sgl_desc bs) = bs"
proof -
  define v where "v = unpack sgl_desc_widths bs"
  have b: "v ! i < 256 ^ (sgl_desc_widths ! i)" if "i < 3" for i
    using unpack_nth_bound [of i sgl_desc_widths bs] that by (simp add: v_def sgl_desc_widths_def)
  have "enc_sgl_desc (dec_sgl_desc bs) = pack (zip sgl_desc_widths [v ! 0, v ! 1, v ! 2])"
    using b [of 0] b [of 1] b [of 2]
    unfolding enc_sgl_desc_def dec_sgl_desc_def Let_def v_def [symmetric]
    by (simp add: sgl_desc_widths_def unat_of_nat_bounded)
  also have "\<dots> = pack (zip sgl_desc_widths v)"
    by (subst list_of_nths) (simp_all add: v_def sgl_desc_widths_def)
  also have "\<dots> = bs"
    unfolding v_def by (rule pack_unpack) (simp add: assms sgl_desc_widths_def)
  finally show ?thesis .
qed

text \<open>The sizes the header asserts with \<^verbatim>\<open>static_assert\<close>.\<close>

lemma length_enc_structs [simp, byte_simps]:
  "length (enc_command c) = 64"
  "length (enc_completion e) = 64"
  "length (enc_sgl_desc d) = 16"
  by (simp_all add: struct_defs length_pack split: prod.splits)

interpretation host_cmd: packed_struct enc_command dec_command 64
  by unfold_locales (simp_all add: dec_enc_command enc_dec_command)

interpretation host_cqe: packed_struct enc_completion dec_completion 64
  by unfold_locales (simp_all add: dec_enc_completion enc_dec_completion)

interpretation host_sgl: packed_struct enc_sgl_desc dec_sgl_desc 16
  by unfold_locales (simp_all add: dec_enc_sgl_desc enc_dec_sgl_desc)

text \<open>The queue identifier and vector packed into the CREATE_IOQ control word come apart again.\<close>

lemma create_ioq_control_qid:
  "(ucast (OPENFLASH_CREATE_IOQ_CONTROL qid vector AND 0xffff) :: u16) = qid"
proof -
  have m: "(0xffff :: u32) = mask 16" by (simp add: mask_eq_exp_minus_1)
  show ?thesis
    unfolding m OPENFLASH_CREATE_IOQ_CONTROL_def
    by (rule bit_word_eqI)
      (simp only: bit_simps, auto dest: bit_imp_le_length)
qed

lemma create_ioq_control_vector:
  "(ucast (drop_bit 16 (OPENFLASH_CREATE_IOQ_CONTROL qid vector)) :: u16) = vector"
  unfolding OPENFLASH_CREATE_IOQ_CONTROL_def
  by (rule bit_word_eqI) (auto simp: bit_simps bit_or_iff dest: bit_imp_le_length)

end
