(* ===== verification/Platform.thy ===== *)
theory Platform
  imports Prelude
begin

text \<open>
  What the emulated controller needs from QEMU and GLib: DMA to guest memory, MSI-X messages and
  whole-file access.  None of that code belongs to the repository, so it is a parameter: the record
  \<open>platform\<close> lists the calls, and the locales state the documented behaviour a theorem may
  assume.  The platform used to run the model, and to close the end-to-end statements with the
  Linux driver, is guest RAM as a plain byte memory; it satisfies every law.
\<close>

section \<open>The calls\<close>

text \<open>
  \<open>'h\<close> is everything outside the device model.  \<open>pci_dma_read\<close> receives the old contents of
  the destination buffer and returns the new contents; the callers ignore the transaction result.
  \<open>g_file_get_contents\<close> returns \<open>None\<close> for an error, \<open>msix_init_exclusive_bar\<close> returns
  \<open>True\<close> for an error.
\<close>

record 'h platform =
  pci_dma_read :: "'h \<Rightarrow> u64 \<Rightarrow> u8 list \<Rightarrow> u8 list"
  pci_dma_write :: "'h \<Rightarrow> u64 \<Rightarrow> u8 list \<Rightarrow> 'h"
  msix_enabled :: "'h \<Rightarrow> bool"
  msix_notify :: "'h \<Rightarrow> u16 \<Rightarrow> 'h"
  msix_init_exclusive_bar :: "'h \<Rightarrow> nat \<Rightarrow> bool \<times> 'h"
  g_file_test :: "'h \<Rightarrow> string \<Rightarrow> bool"
  g_file_get_contents :: "'h \<Rightarrow> string \<Rightarrow> u8 list option"
  g_file_set_contents :: "'h \<Rightarrow> string \<Rightarrow> u8 list \<Rightarrow> bool \<times> 'h"

section \<open>The laws\<close>

text \<open>A DMA read fills the caller's buffer: it never changes its length.\<close>

locale dma_buffer =
  fixes P :: "'h platform"
  assumes length_dma_read: "length (pci_dma_read P h a buf) = length buf"

text \<open>Guest memory: a write is read back at its address and changes nothing apart from it.\<close>

locale guest_memory = dma_buffer P for P :: "'h platform" +
  assumes dma_read_back:
    "length bs \<le> 2 ^ 64 \<Longrightarrow> length buf = length bs \<Longrightarrow>
     pci_dma_read P (pci_dma_write P h a bs) a buf = bs"
    and dma_read_apart:
    "apart a (length buf) b (length bs) \<Longrightarrow>
     pci_dma_read P (pci_dma_write P h b bs) a buf = pci_dma_read P h a buf"
    and dma_read_full:
    "length buf = length buf' \<Longrightarrow> pci_dma_read P h a buf = pci_dma_read P h a buf'"
    and dma_read_notify:
    "pci_dma_read P (msix_notify P h v) a buf = pci_dma_read P h a buf"

text \<open>
  \<^verbatim>\<open>g_file_set_contents\<close> replaces the whole file or leaves it as it was; a file that was
  written exists and is read back.  DMA writes do not touch files.
\<close>

locale image_file =
  fixes P :: "'h platform"
  assumes set_get: "g_file_set_contents P h f bs = (True, h') \<Longrightarrow> g_file_get_contents P h' f = Some bs"
    and set_exists: "g_file_set_contents P h f bs = (True, h') \<Longrightarrow> g_file_test P h' f"
    and set_failed: "g_file_set_contents P h f bs = (False, h') \<Longrightarrow>
      g_file_get_contents P h' f = g_file_get_contents P h f"
    and get_dma_write: "g_file_get_contents P (pci_dma_write P h a bs) f = g_file_get_contents P h f"

text \<open>What the guest stores at an address, as a DMA read into a cleared buffer shows it.\<close>

definition guest_bytes :: "'h platform \<Rightarrow> 'h \<Rightarrow> u64 \<Rightarrow> nat \<Rightarrow> u8 list" where
  "guest_bytes P h a n = pci_dma_read P h a (replicate n 0)"

context dma_buffer begin

lemma length_guest_bytes [byte_simps]: "length (guest_bytes P h a n) = n"
  by (simp add: guest_bytes_def length_dma_read)

end

context guest_memory begin

lemma dma_read_eq_guest_bytes: "pci_dma_read P h a buf = guest_bytes P h a (length buf)"
  unfolding guest_bytes_def by (rule dma_read_full) simp

lemma guest_bytes_write_same:
  "length bs \<le> 2 ^ 64 \<Longrightarrow> guest_bytes P (pci_dma_write P h a bs) a (length bs) = bs"
  by (simp add: guest_bytes_def dma_read_back)

lemma guest_bytes_write_apart:
  "apart a n b (length bs) \<Longrightarrow> guest_bytes P (pci_dma_write P h b bs) a n = guest_bytes P h a n"
  by (simp add: guest_bytes_def dma_read_apart)

lemma guest_bytes_notify: "guest_bytes P (msix_notify P h v) a n = guest_bytes P h a n"
  by (simp add: guest_bytes_def dma_read_notify)

end

section \<open>Guest RAM\<close>

record host =
  h_ram :: mem
  h_msix :: bool
  h_irqs :: "u16 list"
  h_files :: "string \<Rightarrow> u8 list option"
  h_file_ok :: bool

definition ram_platform :: "host platform" where
  "ram_platform = \<lparr>
     pci_dma_read = (\<lambda>h a buf. mem_load (h_ram h) a (length buf)),
     pci_dma_write = (\<lambda>h a bs. h\<lparr>h_ram := mem_store (h_ram h) a bs\<rparr>),
     msix_enabled = h_msix,
     msix_notify = (\<lambda>h v. h\<lparr>h_irqs := h_irqs h @ [v]\<rparr>),
     msix_init_exclusive_bar = (\<lambda>h n. (False, h)),
     g_file_test = (\<lambda>h f. h_files h f \<noteq> None),
     g_file_get_contents = h_files,
     g_file_set_contents = (\<lambda>h f bs.
       if h_file_ok h then (True, h\<lparr>h_files := (h_files h)(f := Some bs)\<rparr>) else (False, h))\<rparr>"

lemma ram_simps [simp]:
  "pci_dma_read ram_platform h a buf = mem_load (h_ram h) a (length buf)"
  "pci_dma_write ram_platform h a bs = h\<lparr>h_ram := mem_store (h_ram h) a bs\<rparr>"
  "msix_enabled ram_platform = h_msix"
  "msix_notify ram_platform h v = h\<lparr>h_irqs := h_irqs h @ [v]\<rparr>"
  "msix_init_exclusive_bar ram_platform h n = (False, h)"
  "g_file_test ram_platform h f \<longleftrightarrow> h_files h f \<noteq> None"
  "g_file_get_contents ram_platform = h_files"
  "g_file_set_contents ram_platform h f bs =
     (if h_file_ok h then (True, h\<lparr>h_files := (h_files h)(f := Some bs)\<rparr>) else (False, h))"
  by (simp_all add: ram_platform_def)

interpretation ram: guest_memory ram_platform
proof unfold_locales
  show "pci_dma_read ram_platform (pci_dma_write ram_platform h a bs) a buf = bs"
    if "length bs \<le> 2 ^ 64" "length buf = length bs" for h a bs buf
    using that mem_load_store_same [of bs] by simp
qed (simp_all add: mem_load_store_apart)

interpretation ram_file: image_file ram_platform
  by unfold_locales (auto split: if_splits)

end
