(* ===== verification/Device_State.thy ===== *)
theory Device_State
  imports Abi Platform
begin

text \<open>
  The declarations of the QEMU device, \<^verbatim>\<open>src/qemu/hw/block/openflash.c\<close>: its own copy of the ABI
  constants and structures, the queue and device state, the well-formedness invariant of that
  state and the reset handler.
\<close>

section \<open>Constants\<close>

definition OF_ABI_VERSION :: u32 where [of_consts]: "OF_ABI_VERSION = 0x00000002"
definition OF_BAR_SIZE :: u64 where [of_consts]: "OF_BAR_SIZE = 0x2000"
definition OF_REG_ABI_VERSION :: u64 where [of_consts]: "OF_REG_ABI_VERSION = 0x0000"
definition OF_REG_CAPABILITIES :: u64 where [of_consts]: "OF_REG_CAPABILITIES = 0x0008"
definition OF_REG_CONTROL :: u64 where [of_consts]: "OF_REG_CONTROL = 0x0010"
definition OF_REG_STATUS :: u64 where [of_consts]: "OF_REG_STATUS = 0x0014"
definition OF_REG_ADMIN_SQ_LO :: u64 where [of_consts]: "OF_REG_ADMIN_SQ_LO = 0x0020"
definition OF_REG_ADMIN_SQ_HI :: u64 where [of_consts]: "OF_REG_ADMIN_SQ_HI = 0x0024"
definition OF_REG_ADMIN_CQ_LO :: u64 where [of_consts]: "OF_REG_ADMIN_CQ_LO = 0x0028"
definition OF_REG_ADMIN_CQ_HI :: u64 where [of_consts]: "OF_REG_ADMIN_CQ_HI = 0x002c"
definition OF_REG_ADMIN_QSIZE :: u64 where [of_consts]: "OF_REG_ADMIN_QSIZE = 0x0030"
definition OF_REG_DOORBELL_BASE :: u64 where [of_consts]: "OF_REG_DOORBELL_BASE = 0x1000"
definition OF_CTRL_ENABLE :: u64 where [of_consts]: "OF_CTRL_ENABLE = push_bit 0 1"
definition OF_CTRL_RESET :: u64 where [of_consts]: "OF_CTRL_RESET = push_bit 1 1"
definition OF_STATUS_READY :: u32 where [of_consts]: "OF_STATUS_READY = push_bit 0 1"
definition OF_CAPABILITIES :: u64 where
  [of_consts]: "OF_CAPABILITIES = push_bit 0 1 OR push_bit 1 1 OR push_bit 2 1 OR push_bit 4 1"
definition OF_OP_READ :: u8 where [of_consts]: "OF_OP_READ = 0x01"
definition OF_OP_WRITE :: u8 where [of_consts]: "OF_OP_WRITE = 0x02"
definition OF_OP_FLUSH :: u8 where [of_consts]: "OF_OP_FLUSH = 0x03"
definition OF_OP_DISCARD :: u8 where [of_consts]: "OF_OP_DISCARD = 0x04"
definition OF_ADMIN_IDENTIFY :: u8 where [of_consts]: "OF_ADMIN_IDENTIFY = 0x80"
definition OF_ADMIN_CREATE_IOQ :: u8 where [of_consts]: "OF_ADMIN_CREATE_IOQ = 0x81"
definition OF_SC_SUCCESS :: u16 where [of_consts]: "OF_SC_SUCCESS = 0"
definition OF_SC_INVALID_OPCODE :: u16 where [of_consts]: "OF_SC_INVALID_OPCODE = 1"
definition OF_SC_INVALID_FIELD :: u16 where [of_consts]: "OF_SC_INVALID_FIELD = 2"
definition OF_SC_LBA_RANGE :: u16 where [of_consts]: "OF_SC_LBA_RANGE = 3"
definition OF_SC_INTERNAL :: u16 where [of_consts]: "OF_SC_INTERNAL = 7"
definition OF_CMD_F_FUA :: u8 where [of_consts]: "OF_CMD_F_FUA = push_bit 0 1"
definition OF_CMD_F_SGL :: u8 where [of_consts]: "OF_CMD_F_SGL = push_bit 1 1"
definition OF_MAX_SGL_ENTRIES :: u16 where [of_consts]: "OF_MAX_SGL_ENTRIES = 16"
definition OF_BLOCK_SIZE :: u64 where [of_consts]: "OF_BLOCK_SIZE = 4096"
definition OF_DEFAULT_CAPACITY :: u64 where [of_consts]: "OF_DEFAULT_CAPACITY = 64 * 1048576"
definition OF_MAX_QUEUES :: nat where [of_consts]: "OF_MAX_QUEUES = 2"

lemmas of_opcodes = OF_OP_READ_def OF_OP_WRITE_def OF_OP_FLUSH_def OF_OP_DISCARD_def
  OF_ADMIN_IDENTIFY_def OF_ADMIN_CREATE_IOQ_def

lemmas of_status_codes = OF_SC_SUCCESS_def OF_SC_INVALID_OPCODE_def OF_SC_INVALID_FIELD_def
  OF_SC_LBA_RANGE_def OF_SC_INTERNAL_def

section \<open>Structures crossing the DMA boundary\<close>

record OpenFlashCommand =
  cmd_opcode :: u8
  cmd_flags :: u8
  cmd_qid :: u16
  cmd_cid :: u16
  cmd_reserved0 :: u16
  cmd_lba :: u64
  cmd_nblocks :: u32
  cmd_control :: u32
  cmd_data_addr :: u64
  cmd_metadata_addr :: u64
  cmd_user_data :: u64
  cmd_reserved1 :: "u64 \<times> u64"

record OpenFlashCompletion =
  cqe_result :: u64
  cqe_user_data :: u64
  cqe_sq_head :: u16
  cqe_cid :: u16
  cqe_status :: u16
  cqe_flags :: u16
  cqe_reserved :: "u64 \<times> u64 \<times> u64 \<times> u64 \<times> u64"

record OpenFlashSglDesc =
  desc_addr :: u64
  desc_length :: u32
  desc_reserved :: u32

text \<open>The members as \<^verbatim>\<open>le*_to_cpu\<close> reads them from the packed bytes.\<close>

definition dec_OpenFlashCommand :: "u8 list \<Rightarrow> OpenFlashCommand" where
  "dec_OpenFlashCommand bs = (let v = unpack [1, 1, 2, 2, 2, 8, 4, 4, 8, 8, 8, 8, 8] bs in
     \<lparr>cmd_opcode = of_nat (v ! 0), cmd_flags = of_nat (v ! 1), cmd_qid = of_nat (v ! 2),
      cmd_cid = of_nat (v ! 3), cmd_reserved0 = of_nat (v ! 4), cmd_lba = of_nat (v ! 5),
      cmd_nblocks = of_nat (v ! 6), cmd_control = of_nat (v ! 7), cmd_data_addr = of_nat (v ! 8),
      cmd_metadata_addr = of_nat (v ! 9), cmd_user_data = of_nat (v ! 10),
      cmd_reserved1 = (of_nat (v ! 11), of_nat (v ! 12))\<rparr>)"

definition enc_OpenFlashCompletion :: "OpenFlashCompletion \<Rightarrow> u8 list" where
  "enc_OpenFlashCompletion c = (case cqe_reserved c of (r0, r1, r2, r3, r4) \<Rightarrow>
     pack [(8, unat (cqe_result c)), (8, unat (cqe_user_data c)), (2, unat (cqe_sq_head c)),
       (2, unat (cqe_cid c)), (2, unat (cqe_status c)), (2, unat (cqe_flags c)),
       (8, unat r0), (8, unat r1), (8, unat r2), (8, unat r3), (8, unat r4)])"

definition dec_OpenFlashSglDesc :: "u8 list \<Rightarrow> OpenFlashSglDesc" where
  "dec_OpenFlashSglDesc bs = (let v = unpack [8, 4, 4] bs in
     \<lparr>desc_addr = of_nat (v ! 0), desc_length = of_nat (v ! 1), desc_reserved = of_nat (v ! 2)\<rparr>)"

lemma length_enc_OpenFlashCompletion [simp, byte_simps]: "length (enc_OpenFlashCompletion c) = 64"
  by (simp add: enc_OpenFlashCompletion_def length_pack split: prod.splits)

section \<open>Device state\<close>

record OpenFlashQueue =
  q_sq_addr :: u64
  q_cq_addr :: u64
  q_depth :: u32
  q_sq_head :: u16
  q_cq_tail :: u16
  q_cq_head :: u16
  q_vector :: u16
  q_cq_phase :: u8
  q_enabled :: bool

text \<open>\<open>s_storage\<close> is \<open>None\<close> for the null pointer and otherwise the allocated bytes;
  \<open>s_backing_file\<close> is \<open>None\<close> when the property is unset.\<close>

record OpenFlashState =
  s_queues :: "OpenFlashQueue list"
  s_control :: u32
  s_status :: u32
  s_capacity :: u64
  s_storage :: "u8 list option"
  s_backing_file :: "string option"

definition zero_queue :: OpenFlashQueue where
  "zero_queue = \<lparr>q_sq_addr = 0, q_cq_addr = 0, q_depth = 0, q_sq_head = 0, q_cq_tail = 0,
     q_cq_head = 0, q_vector = 0, q_cq_phase = 0, q_enabled = False\<rparr>"

abbreviation queue_of :: "OpenFlashState \<Rightarrow> u16 \<Rightarrow> OpenFlashQueue" where
  "queue_of s qid \<equiv> s_queues s ! unat qid"

text \<open>In-place update of one queue, the \<^verbatim>\<open>queue->field = v\<close> through a pointer into the array.\<close>

definition upd_queue :: "u16 \<Rightarrow> (OpenFlashQueue \<Rightarrow> OpenFlashQueue) \<Rightarrow> OpenFlashState \<Rightarrow> OpenFlashState" where
  "upd_queue qid f s = s\<lparr>s_queues := (s_queues s)[unat qid := f (queue_of s qid)]\<rparr>"

definition openflash_reset :: "OpenFlashState \<Rightarrow> OpenFlashState" where
  "openflash_reset s =
     (let s1 = s\<lparr>s_queues := replicate OF_MAX_QUEUES zero_queue\<rparr>;
          s2 = upd_queue 0 (\<lambda>q. q\<lparr>q_cq_phase := 1\<rparr>) s1;
          s3 = upd_queue 0 (\<lambda>q. q\<lparr>q_vector := 0\<rparr>) s2
      in s3\<lparr>s_control := 0, s_status := 0\<rparr>)"

section \<open>Well-formed states\<close>

text \<open>The media is allocated, as large as the advertised capacity, in whole blocks.\<close>

definition media_ok :: "OpenFlashState \<Rightarrow> bool" where
  "media_ok s \<longleftrightarrow> 4096 \<le> unat (s_capacity s) \<and> unat (s_capacity s) mod 4096 = 0 \<and>
     map_option length (s_storage s) = Some (unat (s_capacity s))"

text \<open>A queue never has more than 4096 slots, an enabled one has at least one, vectors name one of
  the two MSI-X entries and the phase is a bit.\<close>

definition queue_ok :: "OpenFlashQueue \<Rightarrow> bool" where
  "queue_ok q \<longleftrightarrow> unat (q_depth q) \<le> 4096 \<and> (q_enabled q \<longrightarrow> 0 < unat (q_depth q)) \<and>
     unat (q_vector q) < OF_MAX_QUEUES \<and> unat (q_cq_phase q) < 2"

definition queues_ok :: "OpenFlashState \<Rightarrow> bool" where
  "queues_ok s \<longleftrightarrow> length (s_queues s) = OF_MAX_QUEUES \<and> list_all queue_ok (s_queues s)"

definition state_ok :: "OpenFlashState \<Rightarrow> bool" where
  "state_ok s \<longleftrightarrow> media_ok s \<and> queues_ok s"

lemma queue_ok_zero [simp]: "queue_ok zero_queue" "queue_ok (zero_queue\<lparr>q_cq_phase := 1\<rparr>)"
  by (simp_all add: queue_ok_def zero_queue_def OF_MAX_QUEUES_def)

lemma queues_ok_nth: "queues_ok s \<Longrightarrow> unat qid < OF_MAX_QUEUES \<Longrightarrow> queue_ok (queue_of s qid)"
  by (simp add: queues_ok_def list_all_length)

lemma upd_queue_simps [simp]:
  "s_storage (upd_queue qid f s) = s_storage s"
  "s_capacity (upd_queue qid f s) = s_capacity s"
  "s_control (upd_queue qid f s) = s_control s"
  "s_status (upd_queue qid f s) = s_status s"
  "s_backing_file (upd_queue qid f s) = s_backing_file s"
  "length (s_queues (upd_queue qid f s)) = length (s_queues s)"
  by (simp_all add: upd_queue_def)

lemma media_ok_upd_queue [simp]: "media_ok (upd_queue qid f s) = media_ok s"
  by (simp add: media_ok_def)

lemma queue_of_upd_queue:
  "unat qid < length (s_queues s) \<Longrightarrow>
   queue_of (upd_queue qid f s) q = (if q = qid then f (queue_of s qid) else queue_of s q)"
  by (auto simp: upd_queue_def nth_list_update unat_eq_iff)

lemma queues_ok_upd_queue:
  assumes "queues_ok s" "unat qid < OF_MAX_QUEUES" "queue_ok (f (queue_of s qid))"
  shows "queues_ok (upd_queue qid f s)"
  using assms by (auto simp: queues_ok_def upd_queue_def list_all_length nth_list_update)

lemma openflash_reset_eq:
  "openflash_reset s = s\<lparr>s_queues := [zero_queue\<lparr>q_cq_phase := 1\<rparr>, zero_queue],
     s_control := 0, s_status := 0\<rparr>"
  by (simp add: openflash_reset_def upd_queue_def OF_MAX_QUEUES_def numeral_eq_Suc zero_queue_def)

lemma reset_state_ok: "media_ok s \<Longrightarrow> state_ok (openflash_reset s)"
  by (simp add: state_ok_def openflash_reset_eq media_ok_def queues_ok_def OF_MAX_QUEUES_def)

end
