(* ===== verification/Media.thy ===== *)
theory Media
  imports Device_State
begin

text \<open>
  Command execution of the QEMU device: the DMA transfer between guest memory and the storage
  buffer (\<open>openflash_transfer\<close>), the whole-image checkpoint (\<open>openflash_persist\<close>) and the
  command interpreter (\<open>openflash_execute\<close>).  An access outside the storage allocation is
  undefined behaviour in C; here it is a \<open>dev_fault\<close>, and so is a remainder by zero in the queue
  engine, so that memory safety is a theorem.
\<close>

section \<open>Access to the storage allocation\<close>

datatype dev_fault = Null_storage | Out_of_bounds | Division_by_zero

definition buf_load :: "u8 list option \<Rightarrow> u64 \<Rightarrow> u64 \<Rightarrow> dev_fault + u8 list" where
  "buf_load b off len = (case b of None \<Rightarrow> Inl Null_storage
     | Some st \<Rightarrow> if unat off + unat len \<le> length st
         then Inr (chunk st (unat off) (unat len)) else Inl Out_of_bounds)"

definition buf_store :: "u8 list option \<Rightarrow> u64 \<Rightarrow> u8 list \<Rightarrow> dev_fault + u8 list option" where
  "buf_store b off bs = (case b of None \<Rightarrow> Inl Null_storage
     | Some st \<Rightarrow> if unat off + length bs \<le> length st
         then Inr (Some (splice_at st (unat off) bs))
         else Inl Out_of_bounds)"

section \<open>Transfer\<close>

text \<open>One \<^verbatim>\<open>pci_dma_read\<close> into, or \<^verbatim>\<open>pci_dma_write\<close> from, the
  \<open>len\<close> bytes of storage at \<open>off\<close>.\<close>

definition dma_segment ::
  "'h platform \<Rightarrow> u64 \<Rightarrow> u64 \<Rightarrow> u64 \<Rightarrow> bool \<Rightarrow> 'h \<Rightarrow> OpenFlashState \<Rightarrow> dev_fault + 'h \<times> OpenFlashState"
where
  "dma_segment P addr off len write h s =
     and_then (buf_load (s_storage s) off len) (\<lambda>old.
       if write then
         and_then (buf_store (s_storage s) off (pci_dma_read P h addr old)) (\<lambda>st.
           Inr (h, s\<lparr>s_storage := st\<rparr>))
       else Inr (pci_dma_write P h addr old, s))"

lemma unat_index_Suc: "(index :: u16) < count \<Longrightarrow> unat (index + 1) = Suc (unat index)"
  using unat_u16_lt [of count] by (simp add: word_less_nat_alt unat_word_ariths(1))

definition fetch_desc :: "'h platform \<Rightarrow> 'h \<Rightarrow> u64 \<Rightarrow> u16 \<Rightarrow> OpenFlashSglDesc" where
  "fetch_desc P h dma index =
     dec_OpenFlashSglDesc (pci_dma_read P h (dma + ucast index * 16) (replicate 16 0))"

function sgl_loop ::
  "'h platform \<Rightarrow> u64 \<Rightarrow> u16 \<Rightarrow> u64 \<Rightarrow> u64 \<Rightarrow> bool \<Rightarrow> u16 \<Rightarrow> u64 \<Rightarrow> 'h \<Rightarrow> OpenFlashState
    \<Rightarrow> dev_fault + bool \<times> 'h \<times> OpenFlashState"
where
  "sgl_loop P dma count offset len write index transferred h s =
     (if index < count then
        (let desc = fetch_desc P h dma index;
             addr = desc_addr desc;
             segment_length = desc_length desc
         in if addr = 0 \<or> segment_length = 0 \<or> ucast segment_length > len - transferred
            then Inr (False, h, s)
            else and_then
              (dma_segment P addr (offset + transferred) (ucast segment_length) write h s)
              (\<lambda>p. sgl_loop P dma count offset len write (index + 1)
                 (transferred + ucast segment_length) (fst p) (snd p)))
      else Inr (transferred = len, h, s))"
  by pat_completeness auto
termination
  by (relation "measure (\<lambda>(P, dma, count, offset, len, write, index, transferred, h, s).
      unat count - unat index)") (auto simp: unat_index_Suc word_less_nat_alt)

declare sgl_loop.simps [simp del]

definition openflash_transfer ::
  "'h platform \<Rightarrow> OpenFlashCommand \<Rightarrow> u64 \<Rightarrow> u64 \<Rightarrow> bool \<Rightarrow> 'h \<Rightarrow> OpenFlashState
    \<Rightarrow> dev_fault + bool \<times> 'h \<times> OpenFlashState"
where
  "openflash_transfer P cmd offset len write h s =
     (let dma = cmd_data_addr cmd in
      if cmd_flags cmd AND OF_CMD_F_SGL = 0 then
        (if dma = 0 then Inr (False, h, s)
         else and_then (dma_segment P dma offset len write h s)
           (\<lambda>p. Inr (True, fst p, snd p)))
      else
        (let count = (ucast (cmd_control cmd AND 0xffff) :: u16) in
         if count = 0 \<or> count > OF_MAX_SGL_ENTRIES \<or> dma = 0 then Inr (False, h, s)
         else sgl_loop P dma count offset len write 0 0 h s))"

section \<open>Persistence\<close>

definition openflash_persist :: "'h platform \<Rightarrow> 'h \<Rightarrow> OpenFlashState \<Rightarrow> dev_fault + bool \<times> 'h" where
  "openflash_persist P h s =
     (case s_backing_file s of
        None \<Rightarrow> Inr (True, h)
      | Some f \<Rightarrow> and_then (buf_load (s_storage s) 0 (s_capacity s)) (\<lambda>contents.
          case g_file_set_contents P h f contents of (ok, h') \<Rightarrow>
            if ok then Inr (True, h') else Inr (False, h')))"

section \<open>Command execution\<close>

definition create_ioq ::
  "OpenFlashCommand \<Rightarrow> 'h \<Rightarrow> OpenFlashState \<Rightarrow> dev_fault + u16 \<times> u64 \<times> 'h \<times> OpenFlashState"
where
  "create_ioq cmd h s =
     (let control = cmd_control cmd;
          qid = (ucast (control AND 0xffff) :: u16);
          vector = (ucast (drop_bit 16 control) :: u16);
          nblocks = cmd_nblocks cmd
      in if qid = 0 \<or> unat qid \<ge> OF_MAX_QUEUES \<or> unat vector \<ge> OF_MAX_QUEUES \<or>
            nblocks = 0 \<or> nblocks > 4096 \<or> cmd_data_addr cmd = 0 \<or> cmd_metadata_addr cmd = 0
         then Inr (OF_SC_INVALID_FIELD, 0, h, s)
         else Inr (OF_SC_SUCCESS, ucast qid, h, upd_queue qid (\<lambda>q. q\<lparr>
           q_sq_addr := cmd_data_addr cmd, q_cq_addr := cmd_metadata_addr cmd,
           q_depth := nblocks, q_sq_head := 0, q_cq_tail := 0, q_cq_head := 0,
           q_cq_phase := 1, q_vector := vector, q_enabled := True\<rparr>) s))"

definition exec_read ::
  "'h platform \<Rightarrow> OpenFlashCommand \<Rightarrow> u64 \<Rightarrow> u64 \<Rightarrow> 'h \<Rightarrow> OpenFlashState
    \<Rightarrow> dev_fault + u16 \<times> u64 \<times> 'h \<times> OpenFlashState"
where
  "exec_read P cmd offset len h s =
     and_then (openflash_transfer P cmd offset len False h s) (\<lambda>(ok, h1, s1).
       if \<not> ok then Inr (OF_SC_INVALID_FIELD, 0, h1, s1)
       else Inr (OF_SC_SUCCESS, ucast (cmd_nblocks cmd), h1, s1))"

definition exec_write ::
  "'h platform \<Rightarrow> OpenFlashCommand \<Rightarrow> u64 \<Rightarrow> u64 \<Rightarrow> 'h \<Rightarrow> OpenFlashState
    \<Rightarrow> dev_fault + u16 \<times> u64 \<times> 'h \<times> OpenFlashState"
where
  "exec_write P cmd offset len h s =
     and_then (openflash_transfer P cmd offset len True h s) (\<lambda>(ok, h1, s1).
       if \<not> ok then Inr (OF_SC_INVALID_FIELD, 0, h1, s1)
       else if cmd_flags cmd AND OF_CMD_F_FUA \<noteq> 0 then
         and_then (openflash_persist P h1 s1) (\<lambda>(ok2, h2).
           if \<not> ok2 then Inr (OF_SC_INTERNAL, 0, h2, s1)
           else Inr (OF_SC_SUCCESS, ucast (cmd_nblocks cmd), h2, s1))
       else Inr (OF_SC_SUCCESS, ucast (cmd_nblocks cmd), h1, s1))"

definition exec_discard ::
  "OpenFlashCommand \<Rightarrow> u64 \<Rightarrow> u64 \<Rightarrow> 'h \<Rightarrow> OpenFlashState
    \<Rightarrow> dev_fault + u16 \<times> u64 \<times> 'h \<times> OpenFlashState"
where
  "exec_discard cmd offset len h s =
     and_then (buf_store (s_storage s) offset (replicate (unat len) 0)) (\<lambda>st.
       Inr (OF_SC_SUCCESS, ucast (cmd_nblocks cmd), h, s\<lparr>s_storage := st\<rparr>))"

definition openflash_execute ::
  "'h platform \<Rightarrow> OpenFlashCommand \<Rightarrow> 'h \<Rightarrow> OpenFlashState
    \<Rightarrow> dev_fault + u16 \<times> u64 \<times> 'h \<times> OpenFlashState"
where
  "openflash_execute P cmd h s =
     (let lba = cmd_lba cmd;
          nblocks = cmd_nblocks cmd;
          offset = lba * OF_BLOCK_SIZE;
          len = ucast nblocks * OF_BLOCK_SIZE
      in if cmd_opcode cmd = OF_ADMIN_IDENTIFY
         then Inr (OF_SC_SUCCESS, s_capacity s div OF_BLOCK_SIZE, h, s)
         else if cmd_opcode cmd = OF_ADMIN_CREATE_IOQ then create_ioq cmd h s
         else if cmd_opcode cmd = OF_OP_FLUSH
         then and_then (openflash_persist P h s) (\<lambda>(ok, h1).
           Inr (if ok then OF_SC_SUCCESS else OF_SC_INTERNAL, 0, h1, s))
         else if nblocks = 0 then Inr (OF_SC_INVALID_FIELD, 0, h, s)
         else if offset > s_capacity s \<or> len > s_capacity s - offset
         then Inr (OF_SC_LBA_RANGE, 0, h, s)
         else if cmd_opcode cmd = OF_OP_READ then exec_read P cmd offset len h s
         else if cmd_opcode cmd = OF_OP_WRITE then exec_write P cmd offset len h s
         else if cmd_opcode cmd = OF_OP_DISCARD then exec_discard cmd offset len h s
         else Inr (OF_SC_INVALID_OPCODE, 0, h, s))"

section \<open>Frame of a transfer\<close>

lemma dma_segment_write:
  assumes "dma_buffer P" "s_storage s = Some st" "unat off + unat len \<le> length st"
  shows "dma_segment P addr off len True h s =
    Inr (h, s\<lparr>s_storage := Some (splice_at st (unat off)
      (pci_dma_read P h addr (chunk st (unat off) (unat len))))\<rparr>)"
  using assms by (simp add: dma_segment_def buf_load_def buf_store_def length_chunk
      dma_buffer.length_dma_read)

lemma dma_segment_read:
  assumes "s_storage s = Some st" "unat off + unat len \<le> length st"
  shows "dma_segment P addr off len False h s =
    Inr (pci_dma_write P h addr (chunk st (unat off) (unat len)), s)"
  using assms by (simp add: dma_segment_def buf_load_def)

text \<open>What a transfer inside \<open>[off, off + n)\<close> may do to the device state.\<close>

definition storage_frame :: "nat \<Rightarrow> nat \<Rightarrow> bool \<Rightarrow> OpenFlashState \<Rightarrow> OpenFlashState \<Rightarrow> bool" where
  "storage_frame off n wr s s' \<longleftrightarrow> s' = s\<lparr>s_storage := s_storage s'\<rparr> \<and>
     (case (s_storage s, s_storage s') of
        (Some st, Some st') \<Rightarrow> same_outside off n st st' \<and> (\<not> wr \<longrightarrow> st' = st)
      | _ \<Rightarrow> False)"

lemma storage_frame_refl: "s_storage s = Some st \<Longrightarrow> storage_frame off n wr s s"
  by (simp add: storage_frame_def)

lemma storage_frame_trans:
  assumes "storage_frame off n wr s s'" "storage_frame off n wr s' s''"
  shows "storage_frame off n wr s s''"
proof -
  have "s'' = s\<lparr>s_storage := s_storage s''\<rparr>"
    using assms by (metis storage_frame_def OpenFlashState.surjective OpenFlashState.update_convs(5))
  then show ?thesis using assms
    by (auto simp: storage_frame_def split: option.splits intro: same_outside_trans)
qed

lemma unat_add_bounded: "unat (a :: u64) + unat b < 2 ^ 64 \<Longrightarrow> unat (a + b) = unat a + unat b"
  by (simp add: unat_word_ariths(1))

lemma dma_segment_frame:
  assumes "dma_buffer P" "s_storage s = Some st" "off \<le> unat o2" "unat o2 + unat len \<le> off + n"
    "off + n \<le> length st"
  shows "\<exists>h' s'. dma_segment P addr o2 len wr h s = Inr (h', s') \<and> storage_frame off n wr s s'"
proof (cases wr)
  case True
  let ?bs = "pci_dma_read P h addr (chunk st (unat o2) (unat len))"
  have "length ?bs = unat len"
    using assms by (simp add: dma_buffer.length_dma_read length_chunk)
  then have "same_outside off n st (splice_at st (unat o2) ?bs)"
    using assms by (intro same_outside_splice_at) auto
  then have "storage_frame off n wr s (s\<lparr>s_storage := Some (splice_at st (unat o2) ?bs)\<rparr>)"
    using True assms(2) by (auto simp: storage_frame_def)
  moreover have "dma_segment P addr o2 len wr h s =
      Inr (h, s\<lparr>s_storage := Some (splice_at st (unat o2) ?bs)\<rparr>)"
    using True assms by (simp add: dma_segment_write)
  ultimately show ?thesis by blast
next
  case False
  then show ?thesis using assms storage_frame_refl [OF assms(2)]
    by (auto simp: dma_segment_read)
qed

text \<open>The three ways an iteration can go.\<close>

lemma sgl_loop_exit:
  "\<not> index < count \<Longrightarrow>
   sgl_loop P dma count offset len wr index transferred h s = Inr (transferred = len, h, s)"
  by (subst sgl_loop.simps) simp

lemma sgl_loop_reject:
  assumes "index < count"
    and "desc_addr (fetch_desc P h dma index) = 0 \<or> desc_length (fetch_desc P h dma index) = 0 \<or>
      ucast (desc_length (fetch_desc P h dma index)) > len - transferred"
  shows "sgl_loop P dma count offset len wr index transferred h s = Inr (False, h, s)"
  by (subst sgl_loop.simps) (simp only: assms Let_def if_True)

lemma sgl_loop_step:
  assumes "index < count"
    and "\<not> (desc_addr (fetch_desc P h dma index) = 0 \<or> desc_length (fetch_desc P h dma index) = 0 \<or>
      ucast (desc_length (fetch_desc P h dma index)) > len - transferred)"
    and "dma_segment P (desc_addr (fetch_desc P h dma index)) (offset + transferred)
      (ucast (desc_length (fetch_desc P h dma index))) wr h s = Inr (h1, s1)"
  shows "sgl_loop P dma count offset len wr index transferred h s =
    sgl_loop P dma count offset len wr (index + 1)
      (transferred + ucast (desc_length (fetch_desc P h dma index))) h1 s1"
  by (subst sgl_loop.simps)
    (simp only: assms Let_def if_True if_False and_then.simps fst_conv snd_conv)

text \<open>Bounds of the next segment, as the guard of the loop establishes them.\<close>

lemma segment_bounds:
  assumes "unat transferred \<le> unat (len :: u64)" "\<not> seg > len - transferred"
    and "unat offset + unat len < 2 ^ 64"
  shows "unat transferred + unat seg \<le> unat len"
    and "unat (transferred + seg) = unat transferred + unat seg"
    and "unat (offset + transferred) = unat offset + unat transferred"
proof -
  have "unat seg \<le> unat len - unat transferred"
    using assms(1,2) by (simp add: not_less word_le_nat_alt unat_sub)
  then show 1: "unat transferred + unat seg \<le> unat len" using assms(1) by linarith
  then show "unat (transferred + seg) = unat transferred + unat seg"
    using unat_u64_lt [of len] by (intro unat_add_bounded) simp
  show "unat (offset + transferred) = unat offset + unat transferred"
    using assms by (intro unat_add_bounded) linarith
qed

lemma sgl_loop_frame:
  "dma_buffer P \<Longrightarrow> s_storage s = Some st \<Longrightarrow> unat offset + unat len \<le> length st \<Longrightarrow>
    length st < 2 ^ 64 \<Longrightarrow> unat transferred \<le> unat len \<Longrightarrow>
    \<exists>ok h' s'. sgl_loop P dma count offset len wr index transferred h s = Inr (ok, h', s') \<and>
      storage_frame (unat offset) (unat len) wr s s'"
proof (induction "unat count - unat index" arbitrary: index transferred h s st)
  case 0
  then have "\<not> index < count" by (simp add: word_less_nat_alt)
  then show ?case using "0.prems"(2) by (simp add: sgl_loop_exit storage_frame_refl)
next
  case (Suc k)
  let ?desc = "fetch_desc P h dma index"
  let ?seg = "ucast (desc_length ?desc) :: u64"
  have ic: "index < count" using Suc.hyps(2) by (simp add: word_less_nat_alt)
  show ?case
  proof (cases "desc_addr ?desc = 0 \<or> desc_length ?desc = 0 \<or> ?seg > len - transferred")
    case True
    then show ?thesis
      using Suc.prems(2) by (auto simp: sgl_loop_reject [OF ic True] storage_frame_refl)
  next
    case False
    note b = segment_bounds [OF Suc.prems(5), of ?seg offset]
    have g: "\<not> ?seg > len - transferred" and small: "unat offset + unat len < 2 ^ 64"
      using False Suc.prems by auto
    note b = b [OF g small]
    obtain h1 s1 where seg1: "dma_segment P (desc_addr ?desc) (offset + transferred) ?seg wr h s
        = Inr (h1, s1)" and f1: "storage_frame (unat offset) (unat len) wr s s1"
      using dma_segment_frame [OF Suc.prems(1,2), of "unat offset" "offset + transferred" ?seg
          "unat len" "desc_addr ?desc" wr h] b Suc.prems(3) by auto
    obtain st1 where st1: "s_storage s1 = Some st1" "length st1 = length st"
      using f1 Suc.prems(2) by (auto simp: storage_frame_def same_outside_def split: option.splits)
    have "k = unat count - unat (index + 1)" using Suc.hyps(2) by (simp add: unat_index_Suc [OF ic])
    then obtain ok h' s' where
      "sgl_loop P dma count offset len wr (index + 1) (transferred + ?seg) h1 s1 = Inr (ok, h', s')"
      "storage_frame (unat offset) (unat len) wr s1 s'"
      using Suc.hyps(1) [of "index + 1" s1 st1 "transferred + ?seg" h1] Suc.prems st1 b by auto
    then show ?thesis
      using sgl_loop_step [OF ic False seg1] storage_frame_trans [OF f1] by auto
  qed
qed

section \<open>Totality and range checks\<close>

lemma in_range_nat:
  assumes "\<not> (offset > cap \<or> len > cap - offset)"
  shows "unat (offset :: u64) + unat len \<le> unat cap"
proof -
  have "unat offset \<le> unat cap" "unat len \<le> unat (cap - offset)"
    using assms by (auto simp: not_less word_le_nat_alt)
  moreover have "unat (cap - offset) = unat cap - unat offset"
    using assms by (auto simp: unat_sub not_less)
  ultimately show ?thesis by linarith
qed

lemma out_of_range_nat:
  assumes "offset > cap \<or> len > cap - (offset :: u64)"
  shows "unat cap < unat offset + unat len"
proof (cases "offset > cap")
  case True
  then show ?thesis by (simp add: word_less_nat_alt)
next
  case False
  then have "unat (cap - offset) = unat cap - unat offset" by (simp add: unat_sub)
  then show ?thesis using assms False by (auto simp: word_less_nat_alt)
qed

lemma in_range_iff:
  "(offset > cap \<or> len > cap - offset) \<longleftrightarrow> unat cap < unat (offset :: u64) + unat len"
  using in_range_nat out_of_range_nat by (meson not_less)

lemma unat_len_blocks: "unat (ucast (n :: u32) * OF_BLOCK_SIZE :: u64) = unat n * 4096"
  using unat_u32_lt [of n] by (simp add: OF_BLOCK_SIZE_def unat_word_ariths(2))

lemma media_okE:
  assumes "media_ok s"
  obtains st where "s_storage s = Some st" "length st = unat (s_capacity s)" "length st < 2 ^ 64"
  using assms unat_u64_lt [of "s_capacity s"] by (auto simp: media_ok_def)

lemma openflash_transfer_frame:
  assumes "dma_buffer P" "s_storage s = Some st" "length st < 2 ^ 64"
    "unat offset + unat len \<le> length st"
  shows "\<exists>ok h' s'. openflash_transfer P cmd offset len wr h s = Inr (ok, h', s') \<and>
    storage_frame (unat offset) (unat len) wr s s'"
proof -
  have "\<exists>h' s'. dma_segment P (cmd_data_addr cmd) offset len wr h s = Inr (h', s') \<and>
      storage_frame (unat offset) (unat len) wr s s'"
    using assms by (intro dma_segment_frame) auto
  moreover have "\<exists>ok h' s'. sgl_loop P (cmd_data_addr cmd) c offset len wr 0 0 h s = Inr (ok, h', s') \<and>
      storage_frame (unat offset) (unat len) wr s s'" for c
    using assms by (intro sgl_loop_frame [OF assms(1,2)]) auto
  ultimately show ?thesis using storage_frame_refl [OF assms(2)]
    by (fastforce simp: openflash_transfer_def Let_def)
qed

lemma openflash_persist_total:
  "media_ok s \<Longrightarrow> \<exists>ok h'. openflash_persist P h s = Inr (ok, h')"
  by (auto simp: openflash_persist_def buf_load_def media_ok_def split: option.splits prod.splits)

lemma storage_frame_keeps:
  assumes "storage_frame off n wr s s'"
  shows "s_queues s' = s_queues s" "s_capacity s' = s_capacity s" "s_control s' = s_control s"
    "s_status s' = s_status s" "s_backing_file s' = s_backing_file s"
  using assms by (cases s; cases s'; simp add: storage_frame_def)+

lemma storage_frame_media_ok: "storage_frame off n wr s s' \<Longrightarrow> media_ok s \<Longrightarrow> media_ok s'"
  using storage_frame_keeps(2) [of off n wr s s']
  by (auto simp: storage_frame_def media_ok_def same_outside_def split: option.splits)

section \<open>Execution is total and stays in its range\<close>

text \<open>Execution is total on well-formed media and touches nothing but the addressed range.\<close>

abbreviation cmd_offset :: "OpenFlashCommand \<Rightarrow> nat" where
  "cmd_offset cmd \<equiv> unat (cmd_lba cmd * OF_BLOCK_SIZE)"

abbreviation cmd_length :: "OpenFlashCommand \<Rightarrow> nat" where
  "cmd_length cmd \<equiv> unat (cmd_nblocks cmd) * 4096"

lemma storage_frame_splice:
  assumes "s_storage s = Some st" "off + length bs \<le> length st"
  shows "storage_frame off (length bs) True s (s\<lparr>s_storage := Some (splice_at st off bs)\<rparr>)"
  using assms same_outside_splice_at [of off off bs "length bs" st] by (simp add: storage_frame_def)

lemma exec_read_frame:
  assumes "dma_buffer P" "s_storage s = Some st" "length st < 2 ^ 64" "unat offset + unat len \<le> length st"
  shows "\<exists>c r h' s'. exec_read P cmd offset len h s = Inr (c, r, h', s') \<and>
    storage_frame (unat offset) (unat len) False s s'"
  using openflash_transfer_frame [OF assms, of cmd False h] by (auto simp: exec_read_def)

lemma exec_write_frame:
  assumes "dma_buffer P" "media_ok s" "unat offset + unat len \<le> unat (s_capacity s)"
  shows "\<exists>c r h' s'. exec_write P cmd offset len h s = Inr (c, r, h', s') \<and>
    storage_frame (unat offset) (unat len) True s s'"
proof -
  obtain st where st: "s_storage s = Some st" "length st = unat (s_capacity s)" "length st < 2 ^ 64"
    using media_okE [OF assms(2)] .
  obtain ok h1 s1 where t: "openflash_transfer P cmd offset len True h s = Inr (ok, h1, s1)"
    and f: "storage_frame (unat offset) (unat len) True s s1"
    using openflash_transfer_frame [OF assms(1) st(1,3), of offset len cmd True h] assms(3) st(2)
    by auto
  obtain ok2 h2 where "openflash_persist P h1 s1 = Inr (ok2, h2)"
    using openflash_persist_total [OF storage_frame_media_ok [OF f assms(2)], of P h1] by blast
  then show ?thesis using t f by (auto simp: exec_write_def)
qed

lemma exec_discard_frame:
  assumes "s_storage s = Some st" "unat offset + unat len \<le> length st"
  shows "\<exists>c r h' s'. exec_discard cmd offset len h s = Inr (c, r, h', s') \<and>
    storage_frame (unat offset) (unat len) True s s'"
  using assms storage_frame_splice [OF assms(1), of "unat offset" "replicate (unat len) 0"]
  by (simp add: exec_discard_def buf_store_def)

lemma create_ioq_queues_ok:
  assumes "queues_ok s" "create_ioq cmd h s = Inr (c, r, h', s')"
  shows "queues_ok s'"
proof (cases "s' = s")
  case False
  let ?q = "ucast (cmd_control cmd AND 0xffff) :: u16"
  let ?v = "ucast (drop_bit 16 (cmd_control cmd)) :: u16"
  have g: "unat ?q < OF_MAX_QUEUES" "unat ?v < OF_MAX_QUEUES" "cmd_nblocks cmd \<noteq> 0" "\<not> cmd_nblocks cmd > 4096"
    using assms(2) False unfolding create_ioq_def Let_def by (auto split: if_splits)
  have d: "0 < unat (cmd_nblocks cmd)" "unat (cmd_nblocks cmd) \<le> 4096"
    using g(3,4) by (simp_all add: unat_gt_0 word_less_nat_alt)
  have "s' = upd_queue ?q (\<lambda>q. q\<lparr>q_sq_addr := cmd_data_addr cmd, q_cq_addr := cmd_metadata_addr cmd,
      q_depth := cmd_nblocks cmd, q_sq_head := 0, q_cq_tail := 0, q_cq_head := 0,
      q_cq_phase := 1, q_vector := ?v, q_enabled := True\<rparr>) s"
    using assms(2) False unfolding create_ioq_def Let_def by (auto split: if_splits)
  then show ?thesis
    using g(1,2) d by (auto intro!: queues_ok_upd_queue [OF assms(1)] simp: queue_ok_def)
qed (simp add: assms(1))

text \<open>What a command may change: nothing, the addressed bytes of storage, or (CREATE_IOQ) a queue.\<close>

definition exec_effect :: "OpenFlashCommand \<Rightarrow> OpenFlashState \<Rightarrow> OpenFlashState \<Rightarrow> bool" where
  "exec_effect cmd s s' \<longleftrightarrow>
     (if cmd_opcode cmd = OF_ADMIN_CREATE_IOQ
      then s' = s\<lparr>s_queues := s_queues s'\<rparr> \<and> queue_of s' 0 = queue_of s 0
      else if cmd_opcode cmd \<in> {OF_OP_READ, OF_OP_WRITE, OF_OP_DISCARD}
      then s' = s \<or> storage_frame (cmd_offset cmd) (cmd_length cmd) (cmd_opcode cmd \<noteq> OF_OP_READ) s s'
        \<and> cmd_offset cmd + cmd_length cmd \<le> unat (s_capacity s)
      else s' = s)"

lemma create_ioq_effect:
  assumes "create_ioq cmd h s = Inr (c, r, h', s')"
  shows "s' = s\<lparr>s_queues := s_queues s'\<rparr>" "queue_of s' 0 = queue_of s 0" "h' = h"
  using assms unfolding create_ioq_def Let_def
  by (auto split: if_splits simp: upd_queue_def nth_list_update unat_eq_zero)

lemma openflash_execute_io:
  assumes "dma_buffer P" "state_ok s" "cmd_opcode cmd \<in> {OF_OP_READ, OF_OP_WRITE, OF_OP_DISCARD}"
    "cmd_nblocks cmd \<noteq> 0" "cmd_offset cmd + cmd_length cmd \<le> unat (s_capacity s)"
  shows "\<exists>c r h' s'. openflash_execute P cmd h s = Inr (c, r, h', s') \<and> state_ok s' \<and>
    storage_frame (cmd_offset cmd) (cmd_length cmd) (cmd_opcode cmd \<noteq> OF_OP_READ) s s'"
proof -
  let ?off = "cmd_lba cmd * OF_BLOCK_SIZE"
  let ?len = "ucast (cmd_nblocks cmd) * OF_BLOCK_SIZE :: u64"
  have m: "media_ok s" and q: "queues_ok s" using assms(2) by (simp_all add: state_ok_def)
  obtain st where st: "s_storage s = Some st" "length st = unat (s_capacity s)" "length st < 2 ^ 64"
    using media_okE [OF m] .
  have rng: "unat ?off + unat ?len \<le> unat (s_capacity s)" using assms(5) by (simp add: unat_len_blocks)
  then have chk: "\<not> (?off > s_capacity s \<or> ?len > s_capacity s - ?off)"
    by (simp only: in_range_iff not_less)
  have "\<exists>c r h' s'. openflash_execute P cmd h s = Inr (c, r, h', s') \<and>
      storage_frame (unat ?off) (unat ?len) (cmd_opcode cmd \<noteq> OF_OP_READ) s s'"
    using assms(3,4) chk exec_read_frame [OF assms(1) st(1,3), of ?off ?len cmd h]
      exec_write_frame [OF assms(1) m, of ?off ?len cmd h]
      exec_discard_frame [OF st(1), of ?off ?len cmd h] rng st(2)
    by (auto simp: openflash_execute_def Let_def of_opcodes)
  then obtain c r h' s' where x: "openflash_execute P cmd h s = Inr (c, r, h', s')"
    and f: "storage_frame (unat ?off) (unat ?len) (cmd_opcode cmd \<noteq> OF_OP_READ) s s'" by blast
  have "state_ok s'"
    using q storage_frame_media_ok [OF f m] storage_frame_keeps(1) [OF f]
    by (simp add: state_ok_def queues_ok_def)
  then show ?thesis using x f by (auto simp: unat_len_blocks)
qed

lemma openflash_execute_rejects:
  assumes "cmd_opcode cmd \<notin> {OF_ADMIN_IDENTIFY, OF_ADMIN_CREATE_IOQ, OF_OP_FLUSH}"
    and "cmd_nblocks cmd = 0 \<or> unat (s_capacity s) < cmd_offset cmd + cmd_length cmd \<or>
      cmd_opcode cmd \<notin> {OF_OP_READ, OF_OP_WRITE, OF_OP_DISCARD}"
  shows "openflash_execute P cmd h s =
    Inr (if cmd_nblocks cmd = 0 then OF_SC_INVALID_FIELD
         else if unat (s_capacity s) < cmd_offset cmd + cmd_length cmd then OF_SC_LBA_RANGE
         else OF_SC_INVALID_OPCODE, 0, h, s)"
  using assms unfolding openflash_execute_def Let_def in_range_iff unat_len_blocks
  by (auto simp: not_less)

lemma create_ioq_total: "\<exists>c r s'. create_ioq cmd h s = Inr (c, r, h, s')"
  unfolding create_ioq_def Let_def by auto

lemma openflash_execute_total:
  assumes "dma_buffer P" "state_ok s"
  obtains c r h' s' where "openflash_execute P cmd h s = Inr (c, r, h', s')" "state_ok s'"
    "exec_effect cmd s s'"
proof -
  have m: "media_ok s" and q: "queues_ok s" using assms(2) by (simp_all add: state_ok_def)
  consider (ident) "cmd_opcode cmd = OF_ADMIN_IDENTIFY" | (create) "cmd_opcode cmd = OF_ADMIN_CREATE_IOQ"
    | (flush) "cmd_opcode cmd = OF_OP_FLUSH"
    | (early) "cmd_opcode cmd \<notin> {OF_ADMIN_IDENTIFY, OF_ADMIN_CREATE_IOQ, OF_OP_FLUSH}"
        "cmd_nblocks cmd = 0 \<or> unat (s_capacity s) < cmd_offset cmd + cmd_length cmd \<or>
         cmd_opcode cmd \<notin> {OF_OP_READ, OF_OP_WRITE, OF_OP_DISCARD}"
    | (io) "cmd_opcode cmd \<in> {OF_OP_READ, OF_OP_WRITE, OF_OP_DISCARD}" "cmd_nblocks cmd \<noteq> 0"
        "cmd_offset cmd + cmd_length cmd \<le> unat (s_capacity s)"
    by fastforce
  then show thesis
  proof cases
    case ident
    then show thesis using assms(2)
      by (intro that [of _ _ h s]) (simp_all add: openflash_execute_def exec_effect_def of_opcodes)
  next
    case create
    obtain c r s' where *: "create_ioq cmd h s = Inr (c, r, h, s')" using create_ioq_total [of cmd h s] by blast
    have "media_ok s'" using m by (subst create_ioq_effect(1) [OF *]) (simp add: media_ok_def)
    then show thesis using create * create_ioq_queues_ok [OF q *] create_ioq_effect(1,2) [OF *]
      by (intro that [of c r h s'])
        (simp_all add: openflash_execute_def exec_effect_def of_opcodes state_ok_def)
  next
    case flush
    obtain ok h1 where "openflash_persist P h s = Inr (ok, h1)"
      using openflash_persist_total [OF m, of P h] by blast
    then show thesis using flush assms(2)
      by (intro that [of _ _ h1 s]) (simp_all add: openflash_execute_def exec_effect_def of_opcodes)
  next
    case early
    then show thesis
      by (intro that [OF openflash_execute_rejects [OF early] assms(2)]) (auto simp: exec_effect_def)
  next
    case io
    then show thesis using openflash_execute_io [OF assms io, of h] that
      by (auto simp: exec_effect_def of_opcodes)
  qed
qed

section \<open>Scatter-gather lists\<close>

text \<open>The descriptors of a scatter-gather list, the bytes they cover in guest memory, and what the
  ABI requires of them.\<close>

definition sgl_entries :: "'h platform \<Rightarrow> 'h \<Rightarrow> u64 \<Rightarrow> nat \<Rightarrow> nat \<Rightarrow> OpenFlashSglDesc list" where
  "sgl_entries P h dma i n = map (\<lambda>k. fetch_desc P h dma (of_nat k)) [i..<n]"

definition sgl_bytes :: "OpenFlashSglDesc list \<Rightarrow> nat" where
  "sgl_bytes ds = sum_list (map (\<lambda>d. unat (desc_length d)) ds)"

definition sgl_valid :: "OpenFlashSglDesc list \<Rightarrow> nat \<Rightarrow> bool" where
  "sgl_valid ds n \<longleftrightarrow> list_all (\<lambda>d. desc_addr d \<noteq> 0 \<and> desc_length d \<noteq> 0) ds \<and> sgl_bytes ds = n"

definition gather :: "'h platform \<Rightarrow> 'h \<Rightarrow> OpenFlashSglDesc list \<Rightarrow> u8 list" where
  "gather P h ds = concat (map (\<lambda>d. guest_bytes P h (desc_addr d) (unat (desc_length d))) ds)"

fun scatter :: "'h platform \<Rightarrow> 'h \<Rightarrow> OpenFlashSglDesc list \<Rightarrow> u8 list \<Rightarrow> 'h" where
  "scatter P h [] bs = h"
| "scatter P h (d # ds) bs = scatter P (pci_dma_write P h (desc_addr d) (take (unat (desc_length d)) bs))
     ds (drop (unat (desc_length d)) bs)"

text \<open>No segment overlaps the descriptor table or another segment.\<close>

definition seg_apart :: "OpenFlashSglDesc \<Rightarrow> OpenFlashSglDesc \<Rightarrow> bool" where
  "seg_apart d e \<longleftrightarrow> apart (desc_addr d) (unat (desc_length d)) (desc_addr e) (unat (desc_length e))"

definition table_apart :: "u64 \<Rightarrow> nat \<Rightarrow> nat \<Rightarrow> OpenFlashSglDesc list \<Rightarrow> bool" where
  "table_apart dma i n ds \<longleftrightarrow> list_all (\<lambda>k. list_all (\<lambda>d.
     apart (dma + of_nat k * 16) 16 (desc_addr d) (unat (desc_length d))) ds) [i..<n]"

definition sgl_unaliased :: "u64 \<Rightarrow> nat \<Rightarrow> OpenFlashSglDesc list \<Rightarrow> bool" where
  "sgl_unaliased dma n ds \<longleftrightarrow> table_apart dma 0 n ds \<and> sorted_wrt seg_apart ds"

lemma sgl_bytes_simps [simp]: "sgl_bytes [] = 0" "sgl_bytes (d # ds) = unat (desc_length d) + sgl_bytes ds"
  by (simp_all add: sgl_bytes_def)

lemma sgl_valid_Cons:
  "sgl_valid (d # ds) n \<longleftrightarrow> desc_addr d \<noteq> 0 \<and> desc_length d \<noteq> 0 \<and> unat (desc_length d) \<le> n \<and>
     sgl_valid ds (n - unat (desc_length d))"
  by (auto simp: sgl_valid_def)

lemma sgl_entries_Cons:
  "unat index < n \<Longrightarrow> sgl_entries P h dma (unat index) n =
     fetch_desc P h dma index # sgl_entries P h dma (Suc (unat index)) n"
  by (simp add: sgl_entries_def upt_conv_Cons)

lemma sgl_entries_exit: "\<not> i < n \<Longrightarrow> sgl_entries P h dma i n = []"
  by (simp add: sgl_entries_def)

lemma gather_simps [simp]:
  "gather P h [] = []"
  "gather P h (d # ds) = guest_bytes P h (desc_addr d) (unat (desc_length d)) @ gather P h ds"
  by (simp_all add: gather_def)

lemma length_gather: "dma_buffer P \<Longrightarrow> length (gather P h ds) = sgl_bytes ds"
  by (induction ds) (simp_all add: dma_buffer.length_guest_bytes)

lemma segment_guard:
  assumes "unat transferred \<le> unat (len :: u64)"
  shows "(ucast (d :: u32) > len - transferred) \<longleftrightarrow> \<not> unat d \<le> unat len - unat transferred"
  using assms by (simp add: word_less_nat_alt unat_sub word_le_nat_alt not_le)

text \<open>One accepted segment, in each direction.\<close>

lemma sgl_loop_write_step:
  assumes "guest_memory P" "s_storage s = Some st" "unat offset + unat len \<le> length st"
    "length st < 2 ^ 64" "unat transferred \<le> unat len" "index < count"
    and d: "d = fetch_desc P h dma index"
    and g: "\<not> (desc_addr d = 0 \<or> desc_length d = 0 \<or> ucast (desc_length d) > len - transferred)"
  shows "sgl_loop P dma count offset len True index transferred h s =
    sgl_loop P dma count offset len True (index + 1) (transferred + ucast (desc_length d)) h
      (s\<lparr>s_storage := Some (splice_at st (unat offset + unat transferred)
        (guest_bytes P h (desc_addr d) (unat (desc_length d))))\<rparr>)"
proof -
  note buf = guest_memory.axioms(1) [OF assms(1)]
  have small: "unat offset + unat len < 2 ^ 64" using assms(3,4) by linarith
  note b = segment_bounds [OF assms(5) _ small, of "ucast (desc_length d)"]
  have "dma_segment P (desc_addr d) (offset + transferred) (ucast (desc_length d)) True h s =
      Inr (h, s\<lparr>s_storage := Some (splice_at st (unat offset + unat transferred)
        (guest_bytes P h (desc_addr d) (unat (desc_length d))))\<rparr>)"
    using dma_segment_write [OF buf assms(2), of "offset + transferred" "ucast (desc_length d)"] b g assms(3)
    by (simp add: guest_memory.dma_read_eq_guest_bytes [OF assms(1)] length_chunk)
  then show ?thesis unfolding d by (rule sgl_loop_step [OF assms(6) g [unfolded d]])
qed

lemma sgl_loop_read_step:
  assumes "s_storage s = Some st" "unat offset + unat len \<le> length st"
    "length st < 2 ^ 64" "unat transferred \<le> unat len" "index < count"
    and d: "d = fetch_desc P h dma index"
    and g: "\<not> (desc_addr d = 0 \<or> desc_length d = 0 \<or> ucast (desc_length d) > len - transferred)"
  shows "sgl_loop P dma count offset len False index transferred h s =
    sgl_loop P dma count offset len False (index + 1) (transferred + ucast (desc_length d))
      (pci_dma_write P h (desc_addr d)
        (chunk st (unat offset + unat transferred) (unat (desc_length d)))) s"
proof -
  have small: "unat offset + unat len < 2 ^ 64" using assms(2,3) by linarith
  note b = segment_bounds [OF assms(4) _ small, of "ucast (desc_length d)"]
  have "dma_segment P (desc_addr d) (offset + transferred) (ucast (desc_length d)) False h s =
      Inr (pci_dma_write P h (desc_addr d)
        (chunk st (unat offset + unat transferred) (unat (desc_length d))), s)"
    using dma_segment_read [OF assms(1), of "offset + transferred" "ucast (desc_length d)"] b g assms(2)
    by simp
  then show ?thesis unfolding d by (rule sgl_loop_step [OF assms(5) g [unfolded d]])
qed

lemma sgl_loop_write:
  assumes "guest_memory P"
  shows "s_storage s = Some st \<Longrightarrow> unat offset + unat len \<le> length st \<Longrightarrow> length st < 2 ^ 64 \<Longrightarrow>
    unat transferred \<le> unat len \<Longrightarrow>
    ds = sgl_entries P h dma (unat index) (unat count) \<Longrightarrow>
    \<exists>ok s'. sgl_loop P dma count offset len True index transferred h s = Inr (ok, h, s') \<and>
      (ok \<longleftrightarrow> sgl_valid ds (unat len - unat transferred)) \<and>
      (ok \<longrightarrow> s' = s\<lparr>s_storage := Some (splice_at st (unat offset + unat transferred) (gather P h ds))\<rparr>)"
proof (induction "unat count - unat index" arbitrary: index transferred s st ds)
  case 0
  then have "\<not> index < count" "ds = []" by (simp_all add: word_less_nat_alt sgl_entries_exit)
  then show ?case using "0.prems"(1,4)
    by (auto simp: sgl_loop_exit sgl_valid_def word_unat_eq_iff)
next
  case (Suc k)
  let ?d = "fetch_desc P h dma index"
  let ?seg = "ucast (desc_length ?d) :: u64"
  let ?rest = "sgl_entries P h dma (unat (index + 1)) (unat count)"
  let ?gb = "guest_bytes P h (desc_addr ?d) (unat (desc_length ?d))"
  let ?st1 = "splice_at st (unat offset + unat transferred) ?gb"
  note buf = guest_memory.axioms(1) [OF assms]
  have ic: "index < count" using Suc.hyps(2) by (simp add: word_less_nat_alt)
  have ds: "ds = ?d # ?rest"
    using ic by (simp add: Suc.prems(5) sgl_entries_Cons unat_index_Suc word_less_nat_alt)
  note guard = segment_guard [OF Suc.prems(4), of "desc_length ?d"]
  show ?case
  proof (cases "desc_addr ?d = 0 \<or> desc_length ?d = 0 \<or> ?seg > len - transferred")
    case True
    then show ?thesis using guard
      by (auto simp: sgl_loop_reject [OF ic True] ds sgl_valid_Cons)
  next
    case False
    have small: "unat offset + unat len < 2 ^ 64" using Suc.prems by linarith
    note b = segment_bounds [OF Suc.prems(4) _ small, of ?seg]
    have lgb: "length ?gb = unat (desc_length ?d)" by (rule dma_buffer.length_guest_bytes [OF buf])
    have fits: "length ?st1 = length st"
      using b False Suc.prems(2) lgb by (intro length_splice_at) simp
    have "k = unat count - unat (index + 1)" using Suc.hyps(2) by (simp add: unat_index_Suc [OF ic])
    from Suc.hyps(1) [OF this, of "s\<lparr>s_storage := Some ?st1\<rparr>" ?st1 "transferred + ?seg" ?rest]
    obtain ok s' where r: "sgl_loop P dma count offset len True (index + 1) (transferred + ?seg) h
        (s\<lparr>s_storage := Some ?st1\<rparr>) = Inr (ok, h, s')"
      and v: "ok \<longleftrightarrow> sgl_valid ?rest (unat len - unat (transferred + ?seg))"
      and e: "ok \<longrightarrow> s' = s\<lparr>s_storage := Some (splice_at ?st1 (unat offset + unat (transferred + ?seg))
          (gather P h ?rest))\<rparr>"
      using Suc.prems(2,3) b False fits by auto
    have v': "ok \<longleftrightarrow> sgl_valid ds (unat len - unat transferred)"
      using v False guard b by (simp add: ds sgl_valid_Cons)
    have "s' = s\<lparr>s_storage := Some (splice_at st (unat offset + unat transferred) (gather P h ds))\<rparr>"
      if ok
      using e v that b False Suc.prems(2) splice_at_append [of "unat offset + unat transferred" ?gb
          "gather P h ?rest" st]
      by (simp add: ds lgb add.assoc length_gather [OF buf] sgl_valid_def)
    then show ?thesis
      using v' r sgl_loop_write_step [OF assms Suc.prems(1-4) ic refl False] by auto
  qed
qed

lemma scatter_apart:
  assumes "guest_memory P" "list_all (\<lambda>d. apart a n (desc_addr d) (unat (desc_length d))) ds"
    "sgl_bytes ds \<le> length bs"
  shows "guest_bytes P (scatter P h ds bs) a n = guest_bytes P h a n"
  using assms(2,3)
proof (induction ds arbitrary: h bs)
  case (Cons d ds)
  then have "length (take (unat (desc_length d)) bs) = unat (desc_length d)" by simp
  with Cons show ?case by (simp add: guest_memory.guest_bytes_write_apart [OF assms(1)])
qed simp

lemma gather_scatter:
  assumes "guest_memory P" "sorted_wrt seg_apart ds" "sgl_bytes ds = length bs"
  shows "gather P (scatter P h ds bs) ds = bs"
  using assms(2,3)
proof (induction ds arbitrary: h bs)
  case (Cons d ds)
  let ?n = "unat (desc_length d)"
  have "list_all (\<lambda>e. apart (desc_addr d) ?n (desc_addr e) (unat (desc_length e))) ds"
    using Cons.prems(1) by (auto simp: list_all_iff seg_apart_def)
  moreover have "length (take ?n bs) = ?n" using Cons.prems(2) by simp
  ultimately have "guest_bytes P (scatter P h (d # ds) bs) (desc_addr d) ?n = take ?n bs"
    using Cons.prems(2) guest_memory.guest_bytes_write_same [OF assms(1), of "take ?n bs" h "desc_addr d"]
      unat_u32_lt [of "desc_length d"]
    by (simp add: scatter_apart [OF assms(1)])
  moreover have "gather P (scatter P h (d # ds) bs) ds = drop ?n bs"
    using Cons by simp
  ultimately show ?case by simp
qed simp

lemma chunk_drop: "chunk xs (off + k) (n - k) = drop k (chunk xs off n)"
  by (simp add: chunk_def drop_take add.commute)

lemma chunk_take: "k \<le> n \<Longrightarrow> chunk xs off k = take k (chunk xs off n)"
  by (simp add: chunk_def min_def)

lemma fetch_desc_write:
  assumes "guest_memory P" "apart (dma + of_nat k * 16) 16 a (length bs)" "k < 2 ^ 16"
  shows "fetch_desc P (pci_dma_write P h a bs) dma (of_nat k) = fetch_desc P h dma (of_nat k)"
proof -
  have "(ucast (of_nat k :: u16) :: u64) = of_nat k"
    using assms(3) by (simp add: word_unat_eq_iff unat_of_nat)
  then show ?thesis
    using guest_memory.dma_read_apart [OF assms(1), of "dma + of_nat k * 16" "replicate 16 0" a bs h]
      assms(2) by (simp add: fetch_desc_def)
qed

lemma sgl_entries_write:
  assumes "guest_memory P" "n < 2 ^ 16"
    "list_all (\<lambda>k. apart (dma + of_nat k * 16) 16 a (length bs)) [i..<n]"
  shows "sgl_entries P (pci_dma_write P h a bs) dma i n = sgl_entries P h dma i n"
  using assms by (auto simp: sgl_entries_def list_all_iff intro!: fetch_desc_write)

lemma sgl_entries_scatter:
  assumes "guest_memory P" "n < 2 ^ 16" "table_apart dma i n ds" "sgl_bytes ds \<le> length bs"
  shows "sgl_entries P (scatter P h ds bs) dma i n = sgl_entries P h dma i n"
  using assms(3,4)
proof (induction ds arbitrary: h bs)
  case (Cons d ds)
  then have "length (take (unat (desc_length d)) bs) = unat (desc_length d)" by simp
  with Cons sgl_entries_write [OF assms(1,2), of dma "desc_addr d" "take (unat (desc_length d)) bs" i h]
  show ?case by (simp add: table_apart_def list_all_iff)
qed simp

lemma sgl_loop_read:
  assumes "guest_memory P"
  shows "s_storage s = Some st \<Longrightarrow> unat offset + unat len \<le> length st \<Longrightarrow> length st < 2 ^ 64 \<Longrightarrow>
    unat transferred \<le> unat len \<Longrightarrow>
    ds = sgl_entries P h dma (unat index) (unat count) \<Longrightarrow>
    sgl_valid ds (unat len - unat transferred) \<Longrightarrow> table_apart dma (unat index) (unat count) ds \<Longrightarrow>
    sgl_loop P dma count offset len False index transferred h s =
      Inr (True, scatter P h ds (chunk st (unat offset + unat transferred) (unat len - unat transferred)), s)"
proof (induction "unat count - unat index" arbitrary: index transferred h ds)
  case 0
  then have "\<not> index < count" "ds = []" by (simp_all add: word_less_nat_alt sgl_entries_exit)
  then show ?case using "0.prems"(4,6) by (auto simp: sgl_loop_exit sgl_valid_def word_unat_eq_iff)
next
  case (Suc k)
  let ?d = "fetch_desc P h dma index"
  let ?seg = "ucast (desc_length ?d) :: u64"
  let ?rest = "sgl_entries P h dma (unat (index + 1)) (unat count)"
  let ?bs = "chunk st (unat offset + unat transferred) (unat (desc_length ?d))"
  let ?h1 = "pci_dma_write P h (desc_addr ?d) ?bs"
  have ic: "index < count" using Suc.hyps(2) by (simp add: word_less_nat_alt)
  have ds: "ds = ?d # ?rest"
    using ic by (simp add: Suc.prems(5) sgl_entries_Cons unat_index_Suc word_less_nat_alt)
  have ok: "\<not> (desc_addr ?d = 0 \<or> desc_length ?d = 0 \<or> ?seg > len - transferred)"
    using Suc.prems(6) segment_guard [OF Suc.prems(4), of "desc_length ?d"] by (simp add: ds sgl_valid_Cons)
  have small: "unat offset + unat len < 2 ^ 64" using Suc.prems by linarith
  note b = segment_bounds [OF Suc.prems(4) _ small, of ?seg]
  have lb: "length ?bs = unat (desc_length ?d)" using b ok Suc.prems(2) by (simp add: length_chunk)
  have ta: "table_apart dma (unat (index + 1)) (unat count) ?rest"
    "list_all (\<lambda>k. apart (dma + of_nat k * 16) 16 (desc_addr ?d) (length ?bs)) [unat (index + 1)..<unat count]"
    using Suc.prems(7) by (simp_all add: ds table_apart_def list_all_iff lb unat_index_Suc [OF ic])
  have rest: "?rest = sgl_entries P ?h1 dma (unat (index + 1)) (unat count)"
    using sgl_entries_write [OF assms _ ta(2)] unat_u16_lt [of count] by simp
  have k: "k = unat count - unat (index + 1)" using Suc.hyps(2) by (simp add: unat_index_Suc [OF ic])
  have "sgl_loop P dma count offset len False (index + 1) (transferred + ?seg) ?h1 s =
      Inr (True, scatter P ?h1 ?rest (chunk st (unat offset + unat (transferred + ?seg))
        (unat len - unat (transferred + ?seg))), s)"
    using Suc.prems(6) b ok ta(1)
    by (intro Suc.hyps(1) [OF k Suc.prems(1-3)] rest) (simp_all add: ds sgl_valid_Cons)
  then show ?case
    using sgl_loop_read_step [OF Suc.prems(1-4) ic refl ok] b ok
      chunk_drop [of st "unat offset + unat transferred" "unat (desc_length ?d)" "unat len - unat transferred"]
      chunk_take [of "unat (desc_length ?d)" "unat len - unat transferred" st "unat offset + unat transferred"]
    by (simp add: ds add.assoc)
qed

section \<open>Transfers between guest memory and storage\<close>

text \<open>The data a read or write command designates in guest memory: one buffer or a list of segments.\<close>

abbreviation is_direct :: "OpenFlashCommand \<Rightarrow> bool" where
  "is_direct cmd \<equiv> cmd_flags cmd AND OF_CMD_F_SGL = 0"

abbreviation sgl_count :: "OpenFlashCommand \<Rightarrow> u16" where
  "sgl_count cmd \<equiv> ucast (cmd_control cmd AND 0xffff)"

definition cmd_sgl :: "'h platform \<Rightarrow> 'h \<Rightarrow> OpenFlashCommand \<Rightarrow> OpenFlashSglDesc list" where
  "cmd_sgl P h cmd = sgl_entries P h (cmd_data_addr cmd) 0 (unat (sgl_count cmd))"

definition payload_ok :: "'h platform \<Rightarrow> 'h \<Rightarrow> OpenFlashCommand \<Rightarrow> bool" where
  "payload_ok P h cmd \<longleftrightarrow> cmd_data_addr cmd \<noteq> 0 \<and>
     (is_direct cmd \<or> 1 \<le> unat (sgl_count cmd) \<and> unat (sgl_count cmd) \<le> 16 \<and>
       sgl_valid (cmd_sgl P h cmd) (cmd_length cmd))"

definition payload :: "'h platform \<Rightarrow> 'h \<Rightarrow> OpenFlashCommand \<Rightarrow> u8 list" where
  "payload P h cmd = (if is_direct cmd then guest_bytes P h (cmd_data_addr cmd) (cmd_length cmd)
     else gather P h (cmd_sgl P h cmd))"

definition unaliased :: "'h platform \<Rightarrow> 'h \<Rightarrow> OpenFlashCommand \<Rightarrow> bool" where
  "unaliased P h cmd \<longleftrightarrow> is_direct cmd \<or>
     sgl_unaliased (cmd_data_addr cmd) (unat (sgl_count cmd)) (cmd_sgl P h cmd)"

lemma sgl_count_guard:
  "(count = 0 \<or> count > OF_MAX_SGL_ENTRIES \<or> dma = 0) \<longleftrightarrow>
   \<not> (1 \<le> unat count \<and> unat count \<le> 16 \<and> dma \<noteq> 0)"
  by (auto simp: OF_MAX_SGL_ENTRIES_def word_less_nat_alt unat_eq_zero not_less Suc_le_eq unat_gt_0)

lemma length_payload:
  "dma_buffer P \<Longrightarrow> payload_ok P h cmd \<Longrightarrow> length (payload P h cmd) = cmd_length cmd"
  by (auto simp: payload_def payload_ok_def dma_buffer.length_guest_bytes length_gather sgl_valid_def)

lemma openflash_transfer_write:
  assumes "guest_memory P" "s_storage s = Some st" "length st < 2 ^ 64"
    "unat offset + unat len \<le> length st" and len: "unat len = cmd_length cmd"
  shows "\<exists>s'. openflash_transfer P cmd offset len True h s = Inr (payload_ok P h cmd, h, s') \<and>
    (payload_ok P h cmd \<longrightarrow> s' = s\<lparr>s_storage := Some (splice_at st (unat offset) (payload P h cmd))\<rparr>)"
proof (cases "is_direct cmd")
  case True
  have "dma_segment P (cmd_data_addr cmd) offset len True h s = Inr (h, s\<lparr>s_storage :=
      Some (splice_at st (unat offset) (guest_bytes P h (cmd_data_addr cmd) (cmd_length cmd)))\<rparr>)"
    using dma_segment_write [OF guest_memory.axioms(1) [OF assms(1)] assms(2,4)]
    by (simp add: guest_memory.dma_read_eq_guest_bytes [OF assms(1)] length_chunk assms(4) flip: len)
      (use assms(4) in simp)
  then show ?thesis using True by (simp add: openflash_transfer_def Let_def payload_ok_def payload_def)
next
  case False
  show ?thesis
  proof (cases "1 \<le> unat (sgl_count cmd) \<and> unat (sgl_count cmd) \<le> 16 \<and> cmd_data_addr cmd \<noteq> 0")
    case True
    have "\<exists>ok s'. sgl_loop P (cmd_data_addr cmd) (sgl_count cmd) offset len True 0 0 h s = Inr (ok, h, s') \<and>
        (ok \<longleftrightarrow> sgl_valid (cmd_sgl P h cmd) (cmd_length cmd)) \<and>
        (ok \<longrightarrow> s' = s\<lparr>s_storage := Some (splice_at st (unat offset) (gather P h (cmd_sgl P h cmd)))\<rparr>)"
      using sgl_loop_write [OF assms(1,2,4,3), of 0 _ h "cmd_data_addr cmd" 0 "sgl_count cmd"]
      by (simp add: cmd_sgl_def len)
    then show ?thesis using True False
      unfolding openflash_transfer_def Let_def payload_ok_def payload_def sgl_count_guard by auto
  next
    case False2: False
    then show ?thesis using False
      unfolding openflash_transfer_def Let_def payload_ok_def sgl_count_guard by auto
  qed
qed

lemma openflash_transfer_read:
  assumes "guest_memory P" "s_storage s = Some st" "length st < 2 ^ 64"
    "unat offset + unat len \<le> length st" and len: "unat len = cmd_length cmd"
    and ok: "payload_ok P h cmd" "unaliased P h cmd"
  shows "\<exists>h'. openflash_transfer P cmd offset len False h s = Inr (True, h', s) \<and>
    payload P h' cmd = chunk st (unat offset) (unat len)"
proof (cases "is_direct cmd")
  case True
  let ?bs = "chunk st (unat offset) (unat len)"
  have lb: "length ?bs = unat len" using assms(4) by (simp add: length_chunk)
  have "guest_bytes P (pci_dma_write P h (cmd_data_addr cmd) ?bs) (cmd_data_addr cmd) (unat len) = ?bs"
    using guest_memory.guest_bytes_write_same [OF assms(1), of ?bs h "cmd_data_addr cmd"] lb
      unat_u64_lt [of len] by simp
  then show ?thesis using True ok(1) dma_segment_read [OF assms(2,4), of P "cmd_data_addr cmd" h]
    by (simp add: openflash_transfer_def Let_def payload_ok_def payload_def len)
next
  case False
  let ?ds = "cmd_sgl P h cmd"
  let ?bs = "chunk st (unat offset) (unat len)"
  let ?h = "scatter P h ?ds ?bs"
  have c: "1 \<le> unat (sgl_count cmd)" "unat (sgl_count cmd) \<le> 16" "cmd_data_addr cmd \<noteq> 0"
    and v: "sgl_valid ?ds (unat len)"
    and u: "table_apart (cmd_data_addr cmd) 0 (unat (sgl_count cmd)) ?ds" "sorted_wrt seg_apart ?ds"
    using ok False by (auto simp: payload_ok_def unaliased_def sgl_unaliased_def len)
  have lb: "sgl_bytes ?ds = length ?bs" using v assms(4) by (simp add: sgl_valid_def length_chunk)
  have "sgl_loop P (cmd_data_addr cmd) (sgl_count cmd) offset len False 0 0 h s = Inr (True, ?h, s)"
    using sgl_loop_read [OF assms(1,2,4,3), of 0 ?ds h "cmd_data_addr cmd" 0 "sgl_count cmd"] u v
    by (simp add: cmd_sgl_def)
  moreover have "cmd_sgl P ?h cmd = ?ds"
    using sgl_entries_scatter [OF assms(1) _ u(1), of ?bs h] c lb by (simp add: cmd_sgl_def)
  ultimately show ?thesis using False c gather_scatter [OF assms(1) u(2) lb, of h]
    unfolding openflash_transfer_def Let_def payload_def sgl_count_guard by auto
qed

section \<open>Commands on the medium\<close>

abbreviation in_range :: "OpenFlashCommand \<Rightarrow> OpenFlashState \<Rightarrow> bool" where
  "in_range cmd s \<equiv> cmd_nblocks cmd \<noteq> 0 \<and> cmd_offset cmd + cmd_length cmd \<le> unat (s_capacity s)"

abbreviation wants_fua :: "OpenFlashCommand \<Rightarrow> bool" where
  "wants_fua cmd \<equiv> cmd_flags cmd AND OF_CMD_F_FUA \<noteq> 0"

lemma range_guard:
  "in_range cmd s \<Longrightarrow> \<not> (cmd_lba cmd * OF_BLOCK_SIZE > s_capacity s \<or>
     ucast (cmd_nblocks cmd) * OF_BLOCK_SIZE > s_capacity s - cmd_lba cmd * OF_BLOCK_SIZE)"
  unfolding in_range_iff unat_len_blocks by simp

lemma execute_write_eq:
  "cmd_opcode cmd = OF_OP_WRITE \<Longrightarrow> in_range cmd s \<Longrightarrow> openflash_execute P cmd h s =
   exec_write P cmd (cmd_lba cmd * OF_BLOCK_SIZE) (ucast (cmd_nblocks cmd) * OF_BLOCK_SIZE) h s"
  using range_guard [of cmd s] by (simp add: openflash_execute_def Let_def of_opcodes)

lemma execute_read_eq:
  "cmd_opcode cmd = OF_OP_READ \<Longrightarrow> in_range cmd s \<Longrightarrow> openflash_execute P cmd h s =
   exec_read P cmd (cmd_lba cmd * OF_BLOCK_SIZE) (ucast (cmd_nblocks cmd) * OF_BLOCK_SIZE) h s"
  using range_guard [of cmd s] by (simp add: openflash_execute_def Let_def of_opcodes)

lemma execute_discard_eq:
  "cmd_opcode cmd = OF_OP_DISCARD \<Longrightarrow> in_range cmd s \<Longrightarrow> openflash_execute P cmd h s =
   exec_discard cmd (cmd_lba cmd * OF_BLOCK_SIZE) (ucast (cmd_nblocks cmd) * OF_BLOCK_SIZE) h s"
  using range_guard [of cmd s] by (simp add: openflash_execute_def Let_def of_opcodes)

lemma execute_in_range:
  assumes "openflash_execute P cmd h s = Inr (OF_SC_SUCCESS, r, h', s')"
    "cmd_opcode cmd \<in> {OF_OP_READ, OF_OP_WRITE, OF_OP_DISCARD}"
  shows "in_range cmd s"
proof (rule ccontr)
  assume "\<not> in_range cmd s"
  then have "openflash_execute P cmd h s = Inr (if cmd_nblocks cmd = 0 then OF_SC_INVALID_FIELD
         else if unat (s_capacity s) < cmd_offset cmd + cmd_length cmd then OF_SC_LBA_RANGE
         else OF_SC_INVALID_OPCODE, 0, h, s)"
    using assms(2) by (intro openflash_execute_rejects) (auto simp: of_opcodes)
  then show False using assms(1) by (auto simp: of_status_codes split: if_splits)
qed

text \<open>The two outcomes of a write: the payload list is refused, or the whole payload is stored.\<close>

lemma write_outcome:
  assumes "guest_memory P" "media_ok s" "s_storage s = Some st"
    and "cmd_opcode cmd = OF_OP_WRITE" "in_range cmd s"
  shows "\<not> payload_ok P h cmd \<Longrightarrow> \<exists>s'. openflash_execute P cmd h s = Inr (OF_SC_INVALID_FIELD, 0, h, s')"
    and "payload_ok P h cmd \<Longrightarrow> \<exists>ok h'. openflash_execute P cmd h s =
      Inr (if ok then OF_SC_SUCCESS else OF_SC_INTERNAL, if ok then ucast (cmd_nblocks cmd) else 0, h',
        s\<lparr>s_storage := Some (splice_at st (cmd_offset cmd) (payload P h cmd))\<rparr>) \<and>
      (if wants_fua cmd
       then openflash_persist P h (s\<lparr>s_storage := Some (splice_at st (cmd_offset cmd) (payload P h cmd))\<rparr>) = Inr (ok, h')
       else ok \<and> h' = h)"
proof -
  let ?s = "s\<lparr>s_storage := Some (splice_at st (cmd_offset cmd) (payload P h cmd))\<rparr>"
  have st: "length st = unat (s_capacity s)" "length st < 2 ^ 64"
    using assms(2,3) unat_u64_lt [of "s_capacity s"] by (auto simp: media_ok_def)
  obtain s' where t: "openflash_transfer P cmd (cmd_lba cmd * OF_BLOCK_SIZE) (ucast (cmd_nblocks cmd) * OF_BLOCK_SIZE) True h s
      = Inr (payload_ok P h cmd, h, s')" and s': "payload_ok P h cmd \<Longrightarrow> s' = ?s"
    using openflash_transfer_write [OF assms(1,3) st(2), of "cmd_lba cmd * OF_BLOCK_SIZE"
        "ucast (cmd_nblocks cmd) * OF_BLOCK_SIZE" cmd h] assms(5) st(1) by (auto simp: unat_len_blocks)
  show "\<exists>s'. openflash_execute P cmd h s = Inr (OF_SC_INVALID_FIELD, 0, h, s')" if "\<not> payload_ok P h cmd"
    using t that by (simp add: execute_write_eq [OF assms(4,5)] exec_write_def)
  assume ok: "payload_ok P h cmd"
  have "length (splice_at st (cmd_offset cmd) (payload P h cmd)) = length st"
    using ok assms(1,5) st(1) by (simp add: length_splice_at length_payload guest_memory.axioms(1))
  then have "media_ok ?s" using assms(2,3) by (simp add: media_ok_def)
  then obtain ok2 h' where "openflash_persist P h ?s = Inr (ok2, h')" using openflash_persist_total [of ?s P h] by blast
  then show "\<exists>ok h'. openflash_execute P cmd h s =
      Inr (if ok then OF_SC_SUCCESS else OF_SC_INTERNAL, if ok then ucast (cmd_nblocks cmd) else 0, h', ?s) \<and>
      (if wants_fua cmd then openflash_persist P h ?s = Inr (ok, h') else ok \<and> h' = h)"
    using t s' [OF ok] ok by (cases "wants_fua cmd") (auto simp: execute_write_eq [OF assms(4,5)] exec_write_def)
qed

lemma read_outcome:
  assumes "guest_memory P" "media_ok s" "s_storage s = Some st"
    and "cmd_opcode cmd = OF_OP_READ" "in_range cmd s" "payload_ok P h cmd" "unaliased P h cmd"
  shows "\<exists>h'. openflash_execute P cmd h s = Inr (OF_SC_SUCCESS, ucast (cmd_nblocks cmd), h', s) \<and>
    payload P h' cmd = chunk st (cmd_offset cmd) (cmd_length cmd)"
proof -
  have st: "length st = unat (s_capacity s)" "length st < 2 ^ 64"
    using assms(2,3) unat_u64_lt [of "s_capacity s"] by (auto simp: media_ok_def)
  show ?thesis
    using openflash_transfer_read [OF assms(1,3) st(2), of "cmd_lba cmd * OF_BLOCK_SIZE"
        "ucast (cmd_nblocks cmd) * OF_BLOCK_SIZE" cmd h] assms st
    by (auto simp: unat_len_blocks execute_read_eq exec_read_def)
qed

end
