(* ===== verification/Media_Spec.thy ===== *)
theory Media_Spec
  imports Media Wire
begin

text \<open>
  What the commands of the QEMU device mean: the properties of \<open>openflash_execute\<close>, each with a
  concrete instance on a two-block device whose guest memory is flat RAM.
\<close>

section \<open>A small device, for concrete instances\<close>

definition blank_device :: OpenFlashState where
  "blank_device = \<lparr>s_queues = [zero_queue, zero_queue], s_control = 0, s_status = 0, s_capacity = 8192,
     s_storage = Some (replicate 8192 0), s_backing_file = Some ''openflash.img''\<rparr>"

definition blank_host :: host where
  "blank_host = \<lparr>h_ram = (\<lambda>_. 7), h_msix = True, h_irqs = [], h_files = (\<lambda>_. None), h_file_ok = True\<rparr>"

definition io_command :: "u8 \<Rightarrow> u8 \<Rightarrow> u64 \<Rightarrow> u32 \<Rightarrow> u64 \<Rightarrow> OpenFlashCommand" where
  "io_command opcode flags lba nblocks addr = \<lparr>cmd_opcode = opcode, cmd_flags = flags, cmd_qid = 1, cmd_cid = 0,
     cmd_reserved0 = 0, cmd_lba = lba, cmd_nblocks = nblocks, cmd_control = 0, cmd_data_addr = addr,
     cmd_metadata_addr = 0, cmd_user_data = 0, cmd_reserved1 = (0, 0)\<rparr>"

lemma blank_device_ok: "state_ok blank_device" "media_ok blank_device"
  by (simp_all add: blank_device_def state_ok_def media_ok_def queues_ok_def OF_MAX_QUEUES_def)

lemma io_command_simps [simp]:
  "cmd_opcode (io_command opcode flags lba nblocks addr) = opcode"
  "cmd_flags (io_command opcode flags lba nblocks addr) = flags"
  "cmd_lba (io_command opcode flags lba nblocks addr) = lba"
  "cmd_nblocks (io_command opcode flags lba nblocks addr) = nblocks"
  "cmd_control (io_command opcode flags lba nblocks addr) = 0"
  "cmd_data_addr (io_command opcode flags lba nblocks addr) = addr"
  by (simp_all add: io_command_def)

lemma blank_device_simps [simp]:
  "s_capacity blank_device = 8192" "s_storage blank_device = Some (replicate 8192 0)"
  "s_backing_file blank_device = Some ''openflash.img''"
  by (simp_all add: blank_device_def)

lemma blank_host_simps [simp]:
  "h_ram blank_host = (\<lambda>_. 7)" "h_files blank_host = (\<lambda>_. None)" "h_file_ok blank_host"
  by (simp_all add: blank_host_def)

lemmas demo_simps = payload_ok_def unaliased_def OF_CMD_F_SGL_def OF_CMD_F_FUA_def OF_BLOCK_SIZE_def

section \<open>Properties of command execution\<close>

text \<open>C3: Executing any command on a well-formed device is memory safe and leaves the device well
  formed: no access through a missing or too short storage buffer, whatever the guest put into the
  command, its payload list and its memory.  A block command changes nothing but the storage bytes of
  its own range, CREATE_IOQ nothing but the queues other than the admin queue, and every other
  opcode nothing at all.\<close>

theorem openflash_execute_safe:
  assumes "dma_buffer P" "state_ok s"
  shows "\<exists>status result h' s'. openflash_execute P cmd h s = Inr (status, result, h', s') \<and> state_ok s' \<and>
    exec_effect cmd s s'"
  using openflash_execute_total [OF assms, of cmd h] by metis

theorem openflash_execute_safe_witness:
  "\<exists>status result h' s'. openflash_execute ram_platform (io_command 1 0 0 1 0x10000) blank_host blank_device =
     Inr (status, result, h', s') \<and> state_ok s' \<and> exec_effect (io_command 1 0 0 1 0x10000) blank_device s'"
  by (rule openflash_execute_safe [OF ram.dma_buffer_axioms blank_device_ok(1)])

text \<open>C4: A WRITE whose range is on the medium and whose payload list is acceptable stores exactly the
  bytes the payload describes, gathered in list order, at \<open>lba * 4096\<close>, keeps every other byte of
  the medium and every other part of the device, and succeeds with the number of blocks written; only a
  forced-unit-access write can fail afterwards, with INTERNAL.  If the payload list is not
  acceptable, the command fails with INVALID_FIELD.\<close>

theorem openflash_write_spec:
  assumes "guest_memory P" "state_ok s" "s_storage s = Some st"
    and "cmd_opcode cmd = OF_OP_WRITE" "in_range cmd s"
  shows "\<exists>ok h' s'. openflash_execute P cmd h s =
      Inr (if \<not> payload_ok P h cmd then OF_SC_INVALID_FIELD else if ok then OF_SC_SUCCESS else OF_SC_INTERNAL,
        if payload_ok P h cmd \<and> ok then ucast (cmd_nblocks cmd) else 0, h', s') \<and>
    (payload_ok P h cmd \<longrightarrow>
      s' = s\<lparr>s_storage := Some (splice_at st (cmd_offset cmd) (payload P h cmd))\<rparr>) \<and>
    (\<not> wants_fua cmd \<longrightarrow> ok \<and> h' = h)"
proof (cases "payload_ok P h cmd")
  case True
  then show ?thesis
    using write_outcome(2) [OF assms(1) _ assms(3-5) True] assms(2) by (auto simp: state_ok_def split: if_splits)
next
  case False
  then show ?thesis
    using write_outcome(1) [OF assms(1) _ assms(3-5) False] assms(2) by (auto simp: state_ok_def)
qed

theorem openflash_write_spec_witness:
  "\<exists>ok h' s'. openflash_execute ram_platform (io_command OF_OP_WRITE 0 1 1 0x10000) blank_host blank_device =
      Inr (if ok then OF_SC_SUCCESS else OF_SC_INTERNAL, if ok then 1 else 0, h', s') \<and>
      s' = blank_device\<lparr>s_storage := Some (splice_at (replicate 8192 0) 4096 (replicate 4096 7))\<rparr> \<and>
      ok \<and> h' = blank_host"
proof -
  have "payload ram_platform blank_host (io_command OF_OP_WRITE 0 1 1 0x10000) = replicate 4096 7"
    by (simp add: payload_def demo_simps guest_bytes_def mem_load_def map_replicate_const)
  then show ?thesis
    using openflash_write_spec [OF ram.guest_memory_axioms blank_device_ok(1), of "replicate 8192 0"
        "io_command OF_OP_WRITE 0 1 1 0x10000" blank_host]
    by (simp add: demo_simps cong: if_cong)
qed

text \<open>C5: A READ whose range is on the medium and whose payload list is acceptable and does not overlap
  itself delivers exactly the stored bytes of the range into the payload buffers, changes nothing in the
  device and succeeds with the number of blocks read.\<close>

theorem openflash_read_spec:
  assumes "guest_memory P" "state_ok s" "s_storage s = Some st"
    and "cmd_opcode cmd = OF_OP_READ" "in_range cmd s" "payload_ok P h cmd" "unaliased P h cmd"
  shows "\<exists>h'. openflash_execute P cmd h s = Inr (OF_SC_SUCCESS, ucast (cmd_nblocks cmd), h', s) \<and>
    payload P h' cmd = chunk st (cmd_offset cmd) (cmd_length cmd)"
  using read_outcome [OF assms(1) _ assms(3-7)] assms(2) by (simp add: state_ok_def)

theorem openflash_read_spec_witness:
  "\<exists>h'. openflash_execute ram_platform (io_command OF_OP_READ 0 1 1 0x10000) blank_host blank_device =
      Inr (OF_SC_SUCCESS, 1, h', blank_device) \<and>
    payload ram_platform h' (io_command OF_OP_READ 0 1 1 0x10000) = chunk (replicate 8192 0) 4096 4096"
  using openflash_read_spec [OF ram.guest_memory_axioms blank_device_ok(1), of "replicate 8192 0"
      "io_command OF_OP_READ 0 1 1 0x10000" blank_host]
  by (simp add: demo_simps)

text \<open>C2: What a successful WRITE stored, a READ of the same blocks returns: the payload buffers of the
  READ then hold the payload of the WRITE, for every combination of direct and scatter-gather payloads.\<close>

theorem openflash_write_read_roundtrip:
  assumes "guest_memory P" "state_ok s"
    and w: "cmd_opcode w = OF_OP_WRITE" "openflash_execute P w h s = Inr (OF_SC_SUCCESS, n, h1, s1)"
    and r: "cmd_opcode r = OF_OP_READ" "cmd_lba r = cmd_lba w" "cmd_nblocks r = cmd_nblocks w"
      "payload_ok P h1 r" "unaliased P h1 r"
  shows "\<exists>h2. openflash_execute P r h1 s1 = Inr (OF_SC_SUCCESS, n, h2, s1) \<and> payload P h2 r = payload P h w"
proof -
  have rw: "in_range w s" using execute_in_range [OF w(2)] w(1) by simp
  obtain st where st: "s_storage s = Some st" "media_ok s" "length st = unat (s_capacity s)"
    using assms(2) media_okE unfolding state_ok_def by blast
  have pw: "payload_ok P h w"
    using write_outcome(1) [OF assms(1) st(2,1) w(1) rw, of h] w(2) by (auto simp: of_status_codes)
  then have s1: "s1 = s\<lparr>s_storage := Some (splice_at st (cmd_offset w) (payload P h w))\<rparr>"
    and n: "n = ucast (cmd_nblocks w)"
    using write_outcome(2) [OF assms(1) st(2,1) w(1) rw pw] w(2) by (auto simp: of_status_codes split: if_splits)
  have l: "length (payload P h w) = cmd_length w" "cmd_offset w + cmd_length w \<le> length st"
    using pw assms(1) rw st(3) by (simp_all add: length_payload guest_memory.axioms(1))
  have "media_ok s1" using st l by (simp add: s1 media_ok_def length_splice_at)
  then show ?thesis
    using read_outcome [OF assms(1), of s1 "splice_at st (cmd_offset w) (payload P h w)" r h1] r rw l
      chunk_splice_same [of "cmd_offset w" "payload P h w" st] by (simp add: s1 n)
qed

theorem openflash_write_read_roundtrip_witness:
  "\<exists>h2. openflash_execute ram_platform (io_command OF_OP_READ 0 1 1 0x20000) blank_host
      (blank_device\<lparr>s_storage := Some (splice_at (replicate 8192 0) 4096 (replicate 4096 7))\<rparr>) =
      Inr (OF_SC_SUCCESS, 1, h2, blank_device\<lparr>s_storage := Some (splice_at (replicate 8192 0) 4096 (replicate 4096 7))\<rparr>) \<and>
    payload ram_platform h2 (io_command OF_OP_READ 0 1 1 0x20000) =
    payload ram_platform blank_host (io_command OF_OP_WRITE 0 1 1 0x10000)"
proof -
  have p: "payload ram_platform blank_host (io_command OF_OP_WRITE 0 1 1 0x10000) = replicate 4096 7"
    by (simp add: payload_def demo_simps guest_bytes_def mem_load_def map_replicate_const)
  have ok: "payload_ok ram_platform blank_host (io_command OF_OP_WRITE 0 1 1 0x10000)"
    by (simp add: demo_simps)
  have w: "openflash_execute ram_platform (io_command OF_OP_WRITE 0 1 1 0x10000) blank_host blank_device =
      Inr (OF_SC_SUCCESS, 1, blank_host, blank_device\<lparr>s_storage := Some (splice_at (replicate 8192 0) 4096 (replicate 4096 7))\<rparr>)"
    using write_outcome(2) [OF ram.guest_memory_axioms blank_device_ok(2) _ _ _ ok, of "replicate 8192 0"] p
    by (auto simp: demo_simps)
  show ?thesis
    by (rule openflash_write_read_roundtrip [OF ram.guest_memory_axioms blank_device_ok(1) _ w])
      (simp_all add: demo_simps)
qed

text \<open>C14: A DISCARD on the medium clears exactly the bytes of its range, without any DMA, and a later
  READ of those blocks delivers zeroes.\<close>

theorem openflash_discard_zeroes:
  assumes "guest_memory P" "state_ok s" "s_storage s = Some st"
    and d: "cmd_opcode d = OF_OP_DISCARD" "in_range d s"
    and r: "cmd_opcode r = OF_OP_READ" "cmd_lba r = cmd_lba d" "cmd_nblocks r = cmd_nblocks d"
      "payload_ok P h r" "unaliased P h r"
  shows "\<exists>s1 h2. openflash_execute P d h s = Inr (OF_SC_SUCCESS, ucast (cmd_nblocks d), h, s1) \<and>
    s1 = s\<lparr>s_storage := Some (splice_at st (cmd_offset d) (replicate (cmd_length d) 0))\<rparr> \<and>
    openflash_execute P r h s1 = Inr (OF_SC_SUCCESS, ucast (cmd_nblocks d), h2, s1) \<and>
    payload P h2 r = replicate (cmd_length d) 0"
proof -
  let ?z = "splice_at st (cmd_offset d) (replicate (cmd_length d) 0)"
  have st: "length st = unat (s_capacity s)" using assms(2,3) by (auto simp: state_ok_def media_ok_def)
  have "openflash_execute P d h s = Inr (OF_SC_SUCCESS, ucast (cmd_nblocks d), h, s\<lparr>s_storage := Some ?z\<rparr>)"
    using assms(3) st d by (simp add: execute_discard_eq exec_discard_def buf_store_def unat_len_blocks)
  moreover have "media_ok (s\<lparr>s_storage := Some ?z\<rparr>)"
    using assms(2,3) d st by (simp add: state_ok_def media_ok_def length_splice_at)
  then have "\<exists>h2. openflash_execute P r h (s\<lparr>s_storage := Some ?z\<rparr>) =
      Inr (OF_SC_SUCCESS, ucast (cmd_nblocks d), h2, s\<lparr>s_storage := Some ?z\<rparr>) \<and> payload P h2 r = replicate (cmd_length d) 0"
    using read_outcome [OF assms(1), of "s\<lparr>s_storage := Some ?z\<rparr>" ?z r h] d r st
      chunk_splice_same [of "cmd_offset d" "replicate (cmd_length d) 0" st] by simp
  ultimately show ?thesis by blast
qed

theorem openflash_discard_zeroes_witness:
  "\<exists>s1 h2. openflash_execute ram_platform (io_command OF_OP_DISCARD 0 0 2 0) blank_host blank_device =
      Inr (OF_SC_SUCCESS, 2, blank_host, s1) \<and>
    s1 = blank_device\<lparr>s_storage := Some (splice_at (replicate 8192 0) 0 (replicate 8192 0))\<rparr> \<and>
    openflash_execute ram_platform (io_command OF_OP_READ 0 0 2 0x10000) blank_host s1 = Inr (OF_SC_SUCCESS, 2, h2, s1) \<and>
    payload ram_platform h2 (io_command OF_OP_READ 0 0 2 0x10000) = replicate 8192 0"
  using openflash_discard_zeroes [OF ram.guest_memory_axioms blank_device_ok(1), of "replicate 8192 0"
      "io_command OF_OP_DISCARD 0 0 2 0" "io_command OF_OP_READ 0 0 2 0x10000" blank_host]
  by (simp add: demo_simps)

lemma persist_durable:
  assumes "image_file P" "media_ok s" "s_storage s = Some st" "s_backing_file s = Some f"
    "openflash_persist P h s = Inr (True, h')"
  shows "g_file_get_contents P h' f = Some st" "g_file_test P h' f"
proof -
  have "length st = unat (s_capacity s)" using assms(2,3) by (simp add: media_ok_def)
  then have "g_file_set_contents P h f st = (True, h')"
    using assms(3-5) by (auto simp: openflash_persist_def buf_load_def chunk_def split: prod.splits if_splits)
  then show "g_file_get_contents P h' f = Some st" "g_file_test P h' f"
    using image_file.set_get [OF assms(1)] image_file.set_exists [OF assms(1)] by auto
qed

text \<open>The commands whose success promises durability.\<close>

definition durable_command :: "OpenFlashCommand \<Rightarrow> bool" where
  "durable_command cmd \<longleftrightarrow> cmd_opcode cmd = OF_OP_FLUSH \<or> cmd_opcode cmd = OF_OP_WRITE \<and> wants_fua cmd"

lemma durable_persists:
  assumes "guest_memory P" "state_ok s" "durable_command cmd"
    "openflash_execute P cmd h s = Inr (OF_SC_SUCCESS, r, h', s')"
  shows "\<exists>h1. openflash_persist P h1 s' = Inr (True, h')"
proof (cases "cmd_opcode cmd = OF_OP_FLUSH")
  case True
  obtain ok h1 where "openflash_persist P h s = Inr (ok, h1)"
    using openflash_persist_total [of s P h] assms(2) by (auto simp: state_ok_def)
  then show ?thesis using True assms(4)
    by (auto simp: openflash_execute_def Let_def of_opcodes of_status_codes split: if_splits)
next
  case False
  then have w: "cmd_opcode cmd = OF_OP_WRITE" "wants_fua cmd" using assms(3) by (auto simp: durable_command_def)
  have rw: "in_range cmd s" using execute_in_range [OF assms(4)] w(1) by simp
  obtain st where st: "s_storage s = Some st" "media_ok s"
    using assms(2) media_okE unfolding state_ok_def by blast
  have "payload_ok P h cmd"
    using write_outcome(1) [OF assms(1) st(2,1) w(1) rw, of h] assms(4) by (auto simp: of_status_codes)
  then show ?thesis
    using write_outcome(2) [OF assms(1) st(2,1) w(1) rw, of h] assms(4) w(2)
    by (auto simp: of_status_codes split: if_splits)
qed

lemma durable_file:
  assumes "guest_memory P" "image_file P" "state_ok s" "s_backing_file s = Some f" "durable_command cmd"
    and "openflash_execute P cmd h s = Inr (OF_SC_SUCCESS, r, h', s')"
  shows "g_file_test P h' f" "g_file_get_contents P h' f = s_storage s'" "media_ok s'" "s_capacity s' = s_capacity s"
proof -
  obtain h1 where p: "openflash_persist P h1 s' = Inr (True, h')"
    using durable_persists [OF assms(1,3,5,6)] by blast
  have s': "state_ok s'" "exec_effect cmd s s'"
    using openflash_execute_total [OF guest_memory.axioms(1) [OF assms(1)] assms(3), of cmd h] assms(6)
    by auto
  then have "s_backing_file s' = Some f" and c: "s_capacity s' = s_capacity s"
    using assms(4,5) storage_frame_keeps(2,5) by (auto simp: exec_effect_def durable_command_def of_opcodes split: if_splits)
  moreover obtain st where "s_storage s' = Some st" "media_ok s'"
    using s'(1) media_okE unfolding state_ok_def by blast
  ultimately show "g_file_test P h' f" "g_file_get_contents P h' f = s_storage s'" "media_ok s'" "s_capacity s' = s_capacity s"
    using persist_durable [OF assms(2) _ _ _ p] by auto
qed

text \<open>C10: When a FLUSH, or a WRITE with the forced-unit-access flag, reports success on a device with a
  backing file, the file on the host holds the whole medium as it is then.\<close>

theorem openflash_durability:
  assumes "guest_memory P" "image_file P" "state_ok s" "s_backing_file s = Some f" "durable_command cmd"
    and "openflash_execute P cmd h s = Inr (OF_SC_SUCCESS, r, h', s')"
  shows "g_file_test P h' f \<and> g_file_get_contents P h' f = s_storage s'"
  using durable_file(1,2) [OF assms] by simp

theorem openflash_durability_witness:
  "\<exists>h'. openflash_execute ram_platform (io_command OF_OP_FLUSH 0 0 0 0) blank_host blank_device =
     Inr (OF_SC_SUCCESS, 0, h', blank_device) \<and>
   g_file_test ram_platform h' ''openflash.img'' \<and>
   g_file_get_contents ram_platform h' ''openflash.img'' = s_storage blank_device"
proof -
  let ?h = "blank_host\<lparr>h_files := (h_files blank_host)(''openflash.img'' := Some (replicate 8192 0))\<rparr>"
  have "openflash_execute ram_platform (io_command OF_OP_FLUSH 0 0 0 0) blank_host blank_device =
     Inr (OF_SC_SUCCESS, 0, ?h, blank_device)"
    by (simp add: openflash_execute_def of_opcodes openflash_persist_def buf_load_def chunk_def)
  then show ?thesis
    using openflash_durability [OF ram.guest_memory_axioms ram_file.image_file_axioms blank_device_ok(1), of
        "''openflash.img''" "io_command OF_OP_FLUSH 0 0 0 0" blank_host 0 ?h blank_device]
    by (auto simp: durable_command_def)
qed



text \<open>C17: The byte offset of a command is computed in 64 bits and wraps: the logical block addresses
  \<open>lba\<close> and \<open>lba + 2 ^ 52\<close> name the same blocks, so a command far beyond the end of
  every medium is executed on low blocks instead of being refused with LBA_RANGE.\<close>

theorem openflash_lba_wraps:
  "openflash_execute P (cmd\<lparr>cmd_lba := cmd_lba cmd + 2 ^ 52\<rparr>) h s = openflash_execute P cmd h s"
proof -
  have "(cmd_lba cmd + 2 ^ 52) * OF_BLOCK_SIZE = cmd_lba cmd * OF_BLOCK_SIZE"
    by (simp add: OF_BLOCK_SIZE_def distrib_right)
  moreover have t: "openflash_transfer P (cmd\<lparr>cmd_lba := l\<rparr>) = openflash_transfer P cmd" for l
    by (simp add: openflash_transfer_def fun_eq_iff Let_def)
  have "exec_read P (cmd\<lparr>cmd_lba := l\<rparr>) = exec_read P cmd" "exec_write P (cmd\<lparr>cmd_lba := l\<rparr>) = exec_write P cmd"
    "exec_discard (cmd\<lparr>cmd_lba := l\<rparr>) off len h s = exec_discard cmd off len h s" for l off len
    by (simp_all add: exec_read_def exec_write_def exec_discard_def fun_eq_iff t cong: if_cong)
  moreover have "create_ioq (cmd\<lparr>cmd_lba := l\<rparr>) h s = create_ioq cmd h s" for l
    by (simp add: create_ioq_def fun_eq_iff Let_def cong: if_cong)
  ultimately show ?thesis by (simp add: openflash_execute_def Let_def)
qed

lemma control_halves:
  "unat (ucast (c AND 0xffff :: u32) :: u16) = unat c mod 65536"
  "unat (ucast (drop_bit 16 c :: u32) :: u16) = unat c div 65536"
proof -
  have m: "(0xffff :: u32) = mask 16" by (simp add: mask_eq_exp_minus_1)
  show "unat (ucast (c AND 0xffff :: u32) :: u16) = unat c mod 65536"
    unfolding m take_bit_eq_mask [symmetric]
    by (simp add: unat_ucast_u32_u16 unat_mod take_bit_eq_mod)
  show "unat (ucast (drop_bit 16 c :: u32) :: u16) = unat c div 65536"
    using unat_u32_lt [of c] by (simp add: unat_ucast_u32_u16 drop_bit_eq_div unat_div)
qed

lemma create_ioq_eq:
  assumes "queues_ok s" "cmd_opcode cmd = OF_ADMIN_CREATE_IOQ"
  shows "openflash_execute P cmd h s =
    (if unat (cmd_control cmd) mod 65536 = 1 \<and> unat (cmd_control cmd) div 65536 < 2 \<and>
        1 \<le> unat (cmd_nblocks cmd) \<and> unat (cmd_nblocks cmd) \<le> 4096 \<and>
        cmd_data_addr cmd \<noteq> 0 \<and> cmd_metadata_addr cmd \<noteq> 0
     then Inr (OF_SC_SUCCESS, 1, h, s\<lparr>s_queues := [queue_of s 0,
       \<lparr>q_sq_addr = cmd_data_addr cmd, q_cq_addr = cmd_metadata_addr cmd, q_depth = cmd_nblocks cmd, q_sq_head = 0,
        q_cq_tail = 0, q_cq_head = 0, q_vector = of_nat (unat (cmd_control cmd) div 65536), q_cq_phase = 1,
        q_enabled = True\<rparr>]\<rparr>)
     else Inr (OF_SC_INVALID_FIELD, 0, h, s))"
proof -
  let ?q = "ucast (cmd_control cmd AND 0xffff) :: u16" and ?v = "ucast (drop_bit 16 (cmd_control cmd)) :: u16"
  have guard: "(?q = 0 \<or> unat ?q \<ge> OF_MAX_QUEUES \<or> unat ?v \<ge> OF_MAX_QUEUES \<or> cmd_nblocks cmd = 0 \<or>
      cmd_nblocks cmd > 4096 \<or> cmd_data_addr cmd = 0 \<or> cmd_metadata_addr cmd = 0) \<longleftrightarrow>
    \<not> (unat ?q = 1 \<and> unat ?v < 2 \<and> 1 \<le> unat (cmd_nblocks cmd) \<and> unat (cmd_nblocks cmd) \<le> 4096 \<and>
        cmd_data_addr cmd \<noteq> 0 \<and> cmd_metadata_addr cmd \<noteq> 0)"
    unfolding OF_MAX_QUEUES_def word_less_nat_alt unat_eq_zero [symmetric] by (simp add: not_less) arith
  have q: "?q = 1" if "unat ?q = 1" using that by (metis unsigned_1 word_unat_eq_iff)
  have v: "?v = of_nat (unat (cmd_control cmd) div 65536)"
    by (simp add: control_halves(2) [symmetric])
  obtain a b where s: "s_queues s = [a, b]"
    using assms(1) by (auto simp: queues_ok_def OF_MAX_QUEUES_def length_Suc_conv numeral_2_eq_2)
  have "openflash_execute P cmd h s = create_ioq cmd h s"
    using assms(2) by (simp add: openflash_execute_def of_opcodes)
  then show ?thesis
    using q unfolding create_ioq_def Let_def guard unfolding control_halves by (simp add: v upd_queue_def s)
qed

text \<open>C15: CREATE_IOQ: the request is accepted exactly when it names the I/O queue, an existing interrupt
  vector, a depth between 1 and 4096 and two non-zero ring addresses.  The queue then starts empty with
  phase 1 on the given rings, and the admin queue, the medium and the registers keep their values; a
  refused request changes nothing.\<close>

theorem create_ioq_spec:
  assumes "queues_ok s" "cmd_opcode cmd = OF_ADMIN_CREATE_IOQ"
  shows "openflash_execute P cmd h s =
    (if unat (cmd_control cmd) mod 65536 = 1 \<and> unat (cmd_control cmd) div 65536 < 2 \<and>
        1 \<le> unat (cmd_nblocks cmd) \<and> unat (cmd_nblocks cmd) \<le> 4096 \<and>
        cmd_data_addr cmd \<noteq> 0 \<and> cmd_metadata_addr cmd \<noteq> 0
     then Inr (OF_SC_SUCCESS, 1, h, s\<lparr>s_queues := [queue_of s 0,
       \<lparr>q_sq_addr = cmd_data_addr cmd, q_cq_addr = cmd_metadata_addr cmd, q_depth = cmd_nblocks cmd, q_sq_head = 0,
        q_cq_tail = 0, q_cq_head = 0, q_vector = of_nat (unat (cmd_control cmd) div 65536), q_cq_phase = 1,
        q_enabled = True\<rparr>]\<rparr>)
     else Inr (OF_SC_INVALID_FIELD, 0, h, s))"
  by (rule create_ioq_eq [OF assms])

theorem create_ioq_spec_witness:
  "openflash_execute ram_platform
     ((io_command OF_ADMIN_CREATE_IOQ 0 0 64 0x10000)\<lparr>cmd_control := 0x10001, cmd_metadata_addr := 0x20000\<rparr>)
     blank_host blank_device =
   Inr (OF_SC_SUCCESS, 1, blank_host, blank_device\<lparr>s_queues := [zero_queue,
     \<lparr>q_sq_addr = 0x10000, q_cq_addr = 0x20000, q_depth = 64, q_sq_head = 0, q_cq_tail = 0, q_cq_head = 0,
      q_vector = 1, q_cq_phase = 1, q_enabled = True\<rparr>]\<rparr>)"
  using create_ioq_spec [of blank_device
      "(io_command OF_ADMIN_CREATE_IOQ 0 0 64 0x10000)\<lparr>cmd_control := 0x10001, cmd_metadata_addr := 0x20000\<rparr>"
      ram_platform blank_host] blank_device_ok(1)
  by (simp add: state_ok_def) (simp add: blank_device_def)

end
