(* ===== verification/Controller.thy ===== *)
theory Controller
  imports Media_Spec
begin

text \<open>
  The queue engine and register file of the QEMU device: fetching and completing commands
  (\<open>openflash_process_sq\<close>), the BAR0 registers (\<open>openflash_mmio_read\<close>,
  \<open>openflash_mmio_write\<close>) and the device life cycle (\<open>openflash_realize\<close>,
  \<open>openflash_exit\<close>).  The fetch loop of the source has no bound of its own, so the model is a
  \<open>partial_function\<close>: \<open>None\<close> means that the handler never returns.
\<close>

section \<open>Submission queue processing\<close>

text \<open>\<^verbatim>\<open>(index + 1) % queue->depth\<close>: the index is promoted to 32 bits, the remainder is
  stored back into 16.\<close>

definition ring_succ :: "u16 \<Rightarrow> u32 \<Rightarrow> u16" where
  "ring_succ i depth = ucast ((ucast i + 1) mod depth)"

definition fetch_cmd :: "'h platform \<Rightarrow> 'h \<Rightarrow> OpenFlashQueue \<Rightarrow> OpenFlashCommand" where
  "fetch_cmd P h q =
     dec_OpenFlashCommand (pci_dma_read P h (q_sq_addr q + ucast (q_sq_head q) * 64) (replicate 64 0))"

text \<open>The body of the fetch loop.  \<open>queue_of\<close> is read again after the command has executed, because
  the C pointer aliases the array that CREATE_IOQ writes.\<close>

definition process_one ::
  "'h platform \<Rightarrow> u16 \<Rightarrow> 'h \<Rightarrow> OpenFlashState \<Rightarrow> dev_fault + 'h \<times> OpenFlashState"
where
  "process_one P qid h s =
     (let cmd = fetch_cmd P h (queue_of s qid) in
      and_then (openflash_execute P cmd h s) (\<lambda>(status, result, h1, s1).
        if q_depth (queue_of s1 qid) = 0 then Inl Division_by_zero else
        let s2 = upd_queue qid (\<lambda>q. q\<lparr>q_sq_head := ring_succ (q_sq_head q) (q_depth q)\<rparr>) s1;
            q2 = queue_of s2 qid;
            cqe = \<lparr>cqe_result = result, cqe_user_data = cmd_user_data cmd,
              cqe_sq_head = q_sq_head q2, cqe_cid = cmd_cid cmd, cqe_status = status,
              cqe_flags = ucast (q_cq_phase q2), cqe_reserved = (0, 0, 0, 0, 0)\<rparr>;
            h2 = pci_dma_write P h1 (q_cq_addr q2 + ucast (q_cq_tail q2) * 64)
              (enc_OpenFlashCompletion cqe);
            s3 = upd_queue qid (\<lambda>q. q\<lparr>q_cq_tail := ring_succ (q_cq_tail q) (q_depth q)\<rparr>) s2;
            s4 = (if q_cq_tail (queue_of s3 qid) = 0
              then upd_queue qid (\<lambda>q. q\<lparr>q_cq_phase := q_cq_phase q XOR 1\<rparr>) s3 else s3)
        in Inr (h2, s4)))"

partial_function (option) process_loop ::
  "'h platform \<Rightarrow> u16 \<Rightarrow> u16 \<Rightarrow> 'h \<Rightarrow> OpenFlashState \<Rightarrow> (dev_fault + 'h \<times> OpenFlashState) option"
where
  "process_loop pl qid new_tail h s =
     (if q_sq_head (queue_of s qid) = new_tail then Some (Inr (h, s))
      else (case process_one pl qid h s of
              Inl f \<Rightarrow> Some (Inl f)
            | Inr p \<Rightarrow> process_loop pl qid new_tail (fst p) (snd p)))"

definition openflash_process_sq ::
  "'h platform \<Rightarrow> u16 \<Rightarrow> u16 \<Rightarrow> 'h \<Rightarrow> OpenFlashState \<Rightarrow> (dev_fault + 'h \<times> OpenFlashState) option"
where
  "openflash_process_sq P qid new_tail h s =
     (if unat qid \<ge> OF_MAX_QUEUES then Some (Inr (h, s))
      else let queue = queue_of s qid in
        if s_status s AND OF_STATUS_READY = 0 \<or> \<not> q_enabled queue \<or> q_depth queue = 0 \<or>
           ucast new_tail \<ge> q_depth queue then Some (Inr (h, s))
        else (case process_loop P qid new_tail h s of
            None \<Rightarrow> None
          | Some (Inl f) \<Rightarrow> Some (Inl f)
          | Some (Inr (h1, s1)) \<Rightarrow>
              Some (Inr (if msix_enabled P h1 then msix_notify P h1 (q_vector (queue_of s1 qid)) else h1,
                s1))))"

section \<open>Registers\<close>

definition openflash_mmio_read :: "OpenFlashState \<Rightarrow> u64 \<Rightarrow> u64" where
  "openflash_mmio_read s addr =
     (if addr = OF_REG_ABI_VERSION then ucast OF_ABI_VERSION
      else if addr = OF_REG_CAPABILITIES then OF_CAPABILITIES
      else if addr = OF_REG_CONTROL then ucast (s_control s)
      else if addr = OF_REG_STATUS then ucast (s_status s)
      else if addr = OF_REG_ADMIN_SQ_LO then ucast (ucast (q_sq_addr (queue_of s 0)) :: u32)
      else if addr = OF_REG_ADMIN_SQ_HI then drop_bit 32 (q_sq_addr (queue_of s 0))
      else if addr = OF_REG_ADMIN_CQ_LO then ucast (ucast (q_cq_addr (queue_of s 0)) :: u32)
      else if addr = OF_REG_ADMIN_CQ_HI then drop_bit 32 (q_cq_addr (queue_of s 0))
      else if addr = OF_REG_ADMIN_QSIZE then ucast (q_depth (queue_of s 0))
      else 0)"

definition set_lo :: "u64 \<Rightarrow> u64 \<Rightarrow> u64" where
  "set_lo old v = (old AND NOT 0xffffffff) OR v"

definition set_hi :: "u64 \<Rightarrow> u64 \<Rightarrow> u64" where
  "set_hi old v = (old AND 0xffffffff) OR push_bit 32 v"

definition openflash_mmio_write ::
  "'h platform \<Rightarrow> u64 \<Rightarrow> u64 \<Rightarrow> 'h \<Rightarrow> OpenFlashState \<Rightarrow> (dev_fault + 'h \<times> OpenFlashState) option"
where
  "openflash_mmio_write P addr v h s =
     (if addr = OF_REG_CONTROL then
        (if v AND OF_CTRL_RESET \<noteq> 0 then Some (Inr (h, openflash_reset s))
         else Some (Inr (h, s\<lparr>s_control := ucast v,
           s_status := (if v AND OF_CTRL_ENABLE \<noteq> 0 then OF_STATUS_READY else 0)\<rparr>)))
      else if addr = OF_REG_ADMIN_SQ_LO then
        Some (Inr (h, upd_queue 0 (\<lambda>q. q\<lparr>q_sq_addr := set_lo (q_sq_addr q) v\<rparr>) s))
      else if addr = OF_REG_ADMIN_SQ_HI then
        Some (Inr (h, upd_queue 0 (\<lambda>q. q\<lparr>q_sq_addr := set_hi (q_sq_addr q) v\<rparr>) s))
      else if addr = OF_REG_ADMIN_CQ_LO then
        Some (Inr (h, upd_queue 0 (\<lambda>q. q\<lparr>q_cq_addr := set_lo (q_cq_addr q) v\<rparr>) s))
      else if addr = OF_REG_ADMIN_CQ_HI then
        Some (Inr (h, upd_queue 0 (\<lambda>q. q\<lparr>q_cq_addr := set_hi (q_cq_addr q) v\<rparr>) s))
      else if addr = OF_REG_ADMIN_QSIZE then
        (let s1 = upd_queue 0 (\<lambda>q. q\<lparr>q_depth := (if 2 \<le> v \<and> v \<le> 4096 then ucast v else 0)\<rparr>) s
         in Some (Inr (h, upd_queue 0 (\<lambda>q. q\<lparr>q_enabled := (q_depth q \<noteq> 0)\<rparr>) s1)))
      else if addr \<ge> OF_REG_DOORBELL_BASE \<and>
              addr < OF_REG_DOORBELL_BASE + of_nat OF_MAX_QUEUES * 8 then
        (let qid = (ucast ((addr - OF_REG_DOORBELL_BASE) div 8) :: u16) in
         if (addr - OF_REG_DOORBELL_BASE) mod 8 = 0 then openflash_process_sq P qid (ucast v) h s
         else if v < ucast (q_depth (queue_of s qid)) then
           Some (Inr (h, upd_queue qid (\<lambda>q. q\<lparr>q_cq_head := ucast v\<rparr>) s))
         else Some (Inr (h, s)))
      else Some (Inr (h, s)))"

section \<open>Life cycle\<close>

datatype realize_error = Bad_capacity | Cannot_load | Bad_image_size | Msix_failed

definition openflash_realize ::
  "'h platform \<Rightarrow> 'h \<Rightarrow> OpenFlashState \<Rightarrow> realize_error option \<times> 'h \<times> OpenFlashState"
where
  "openflash_realize P h s =
     (if s_capacity s < OF_BLOCK_SIZE \<or> s_capacity s mod OF_BLOCK_SIZE \<noteq> 0
      then (Some Bad_capacity, h, s)
      else
        let s1 = s\<lparr>s_storage := Some (replicate (unat (s_capacity s)) 0)\<rparr>;
            image = (case s_backing_file s of
                None \<Rightarrow> Inr s1
              | Some f \<Rightarrow> if \<not> g_file_test P h f then Inr s1
                  else (case g_file_get_contents P h f of
                      None \<Rightarrow> Inl Cannot_load
                    | Some contents \<Rightarrow>
                        if length contents \<noteq> unat (s_capacity s) then Inl Bad_image_size
                        else Inr (s1\<lparr>s_storage := Some contents\<rparr>)))
        in case image of
            Inl e \<Rightarrow> (Some e, h, s1\<lparr>s_storage := None\<rparr>)
          | Inr s2 \<Rightarrow> (case msix_init_exclusive_bar P h OF_MAX_QUEUES of (failed, h1) \<Rightarrow>
              if failed then (Some Msix_failed, h1, s2\<lparr>s_storage := None\<rparr>)
              else (None, h1, openflash_reset s2)))"

text \<open>\<open>g_free (s->storage)\<close> leaves a dangling pointer that nothing reads again; the model drops
  the allocation.\<close>

definition openflash_exit :: "OpenFlashState \<Rightarrow> OpenFlashState" where
  "openflash_exit s = s\<lparr>s_storage := None\<rparr>"

section \<open>One iteration\<close>

lemma unat_ring_succ:
  assumes "0 < unat d" "unat d \<le> 65536"
  shows "unat (ring_succ i d) = (unat i + 1) mod unat d"
proof -
  have "unat (ucast i + 1 :: u32) = unat i + 1"
    using unat_u16_lt [of i] by (simp add: unat_word_ariths(1))
  moreover have "(unat i + 1) mod unat d < 65536"
    using assms by (meson less_le_trans mod_less_divisor)
  ultimately show ?thesis
    by (simp add: ring_succ_def unat_ucast_u32_u16 unat_mod)
qed

text \<open>The effect of one iteration on its queue, and the completion it posts.\<close>

definition advance_queue :: "OpenFlashQueue \<Rightarrow> OpenFlashQueue" where
  "advance_queue q = q\<lparr>q_sq_head := ring_succ (q_sq_head q) (q_depth q),
     q_cq_tail := ring_succ (q_cq_tail q) (q_depth q),
     q_cq_phase := (if ring_succ (q_cq_tail q) (q_depth q) = 0 then q_cq_phase q XOR 1 else q_cq_phase q)\<rparr>"

definition completion_for :: "OpenFlashCommand \<Rightarrow> u16 \<Rightarrow> u64 \<Rightarrow> OpenFlashQueue \<Rightarrow> OpenFlashCompletion" where
  "completion_for cmd status result q =
     \<lparr>cqe_result = result, cqe_user_data = cmd_user_data cmd,
      cqe_sq_head = ring_succ (q_sq_head q) (q_depth q), cqe_cid = cmd_cid cmd, cqe_status = status,
      cqe_flags = ucast (q_cq_phase q), cqe_reserved = (0, 0, 0, 0, 0)\<rparr>"

lemma upd_queue_upd_queue:
  "unat qid < length (s_queues s) \<Longrightarrow> upd_queue qid f (upd_queue qid g s) = upd_queue qid (f \<circ> g) s"
  by (simp add: upd_queue_def)

lemma process_one_eq:
  assumes "openflash_execute P (fetch_cmd P h (queue_of s qid)) h s = Inr (c, r, h1, s1)"
    "unat qid < length (s_queues s1)" "q_depth (queue_of s1 qid) \<noteq> 0"
  shows "process_one P qid h s = Inr
    (pci_dma_write P h1 (q_cq_addr (queue_of s1 qid) + ucast (q_cq_tail (queue_of s1 qid)) * 64)
       (enc_OpenFlashCompletion (completion_for (fetch_cmd P h (queue_of s qid)) c r (queue_of s1 qid))),
     upd_queue qid advance_queue s1)"
  using assms
  by (simp add: process_one_def Let_def queue_of_upd_queue completion_for_def)
    (simp add: upd_queue_def advance_queue_def)

lemma exec_effect_queue:
  assumes "exec_effect cmd s s'"
  shows "cmd_opcode cmd \<noteq> OF_ADMIN_CREATE_IOQ \<Longrightarrow> s_queues s' = s_queues s"
    and "queue_of s' 0 = queue_of s 0" and "s_status s' = s_status s" and "s_capacity s' = s_capacity s"
    and "s_backing_file s' = s_backing_file s"
proof -
  have c: "s' = s \<or> s' = s\<lparr>s_queues := s_queues s'\<rparr> \<and> queue_of s' 0 = queue_of s 0 \<or>
      (\<exists>off n w. storage_frame off n w s s')"
    using assms by (auto simp: exec_effect_def split: if_splits)
  show "cmd_opcode cmd \<noteq> OF_ADMIN_CREATE_IOQ \<Longrightarrow> s_queues s' = s_queues s"
    using assms storage_frame_keeps(1) by (auto simp: exec_effect_def split: if_splits)
  show "queue_of s' 0 = queue_of s 0"
    using c storage_frame_keeps(1) by fastforce
  show "s_status s' = s_status s"
    using c storage_frame_keeps(4) by (metis OpenFlashState.ext_inject OpenFlashState.surjective
        OpenFlashState.update_convs(1))
  show "s_capacity s' = s_capacity s"
    using c storage_frame_keeps(2) by (metis OpenFlashState.ext_inject OpenFlashState.surjective
        OpenFlashState.update_convs(1))
  show "s_backing_file s' = s_backing_file s"
    using c storage_frame_keeps(5) by (metis OpenFlashState.ext_inject OpenFlashState.surjective
        OpenFlashState.update_convs(1))
qed

text \<open>A queue the engine may run: the device state is well formed and the queue has been set up.\<close>

definition runnable :: "u16 \<Rightarrow> OpenFlashState \<Rightarrow> bool" where
  "runnable qid s \<longleftrightarrow> state_ok s \<and> unat qid < OF_MAX_QUEUES \<and> q_enabled (queue_of s qid)"

lemma runnable_depth:
  "runnable qid s \<Longrightarrow> 0 < unat (q_depth (queue_of s qid)) \<and> unat (q_depth (queue_of s qid)) \<le> 4096"
  using queues_ok_nth [of s qid] by (simp add: runnable_def state_ok_def queue_ok_def)

lemma create_ioq_enabled:
  assumes "create_ioq cmd h s = Inr (c, r, h', s')" "q_enabled (queue_of s qid)" "queues_ok s"
    "unat qid < OF_MAX_QUEUES"
  shows "q_enabled (queue_of s' qid)"
  using assms unfolding create_ioq_def Let_def
  by (auto split: if_splits simp: upd_queue_def nth_list_update queues_ok_def)

lemma openflash_execute_enabled:
  assumes "openflash_execute P cmd h s = Inr (c, r, h', s')" "exec_effect cmd s s'" "runnable qid s"
  shows "q_enabled (queue_of s' qid)"
proof (cases "cmd_opcode cmd = OF_ADMIN_CREATE_IOQ")
  case True
  then have "create_ioq cmd h s = Inr (c, r, h', s')"
    using assms(1) by (simp add: openflash_execute_def of_opcodes)
  then show ?thesis using assms(3) create_ioq_enabled by (auto simp: runnable_def state_ok_def)
next
  case False
  then show ?thesis using exec_effect_queue(1) [OF assms(2)] assms(3) by (simp add: runnable_def)
qed

lemma cq_phase_toggle: "unat (x :: u8) < 2 \<Longrightarrow> unat (x XOR 1) < 2"
proof -
  assume "unat x < 2"
  then have "x = 0 \<or> x = 1" by (auto simp: word_unat_eq_iff less_2_cases_iff)
  then show ?thesis by auto
qed

lemma queue_ok_advance: "queue_ok q \<Longrightarrow> queue_ok (advance_queue q)"
  by (simp add: queue_ok_def advance_queue_def cq_phase_toggle)

text \<open>Every iteration runs to its end, keeps the invariant and leaves the registers alone.\<close>

lemma process_one_total:
  assumes "dma_buffer P" "runnable qid s"
  obtains c r h1 s1 where
    "openflash_execute P (fetch_cmd P h (queue_of s qid)) h s = Inr (c, r, h1, s1)"
    "exec_effect (fetch_cmd P h (queue_of s qid)) s s1"
    "process_one P qid h s = Inr
      (pci_dma_write P h1 (q_cq_addr (queue_of s1 qid) + ucast (q_cq_tail (queue_of s1 qid)) * 64)
        (enc_OpenFlashCompletion (completion_for (fetch_cmd P h (queue_of s qid)) c r (queue_of s1 qid))),
       upd_queue qid advance_queue s1)"
    "runnable qid s1" "runnable qid (upd_queue qid advance_queue s1)"
proof -
  let ?cmd = "fetch_cmd P h (queue_of s qid)"
  have ok: "state_ok s" and qid: "unat qid < OF_MAX_QUEUES" using assms(2) by (auto simp: runnable_def)
  obtain c r h1 s1 where x: "openflash_execute P ?cmd h s = Inr (c, r, h1, s1)" and s1: "state_ok s1"
    and e: "exec_effect ?cmd s s1"
    using openflash_execute_total [OF assms(1) ok, of ?cmd h] by metis
  have r1: "runnable qid s1"
    using openflash_execute_enabled [OF x e assms(2)] s1 qid by (simp add: runnable_def)
  have len: "unat qid < length (s_queues s1)" using s1 qid by (simp add: state_ok_def queues_ok_def)
  have "queue_ok (advance_queue (queue_of s1 qid))"
    using s1 qid queue_ok_advance queues_ok_nth by (simp add: state_ok_def)
  then have "runnable qid (upd_queue qid advance_queue s1)"
    using r1 queues_ok_upd_queue [of s1 qid advance_queue] len qid
    by (simp add: runnable_def state_ok_def queue_of_upd_queue advance_queue_def)
  moreover have "q_depth (queue_of s1 qid) \<noteq> 0" using runnable_depth [OF r1] by auto
  ultimately show thesis using that x e r1 process_one_eq [OF x len] by blast
qed

text \<open>The loop rule: an invariant that every iteration keeps holds when the loop exits.\<close>

lemma process_loop_rule:
  assumes ret: "process_loop pl qid tail h s = Some res" and init: "I h s"
    and step: "\<And>h s. I h s \<Longrightarrow> q_sq_head (queue_of s qid) \<noteq> tail \<Longrightarrow>
      \<exists>h' s'. process_one pl qid h s = Inr (h', s') \<and> I h' s'"
  shows "\<exists>h' s'. res = Inr (h', s') \<and> I h' s' \<and> q_sq_head (queue_of s' qid) = tail"
proof -
  let ?Q = "\<lambda>p q t h s res. p = pl \<and> q = qid \<and> t = tail \<and> I h s \<longrightarrow>
      (\<exists>h' s'. res = Inr (h', s') \<and> I h' s' \<and> q_sq_head (queue_of s' qid) = tail)"
  have "?Q pl qid tail h s res"
  proof (rule process_loop.raw_induct [where P = ?Q, OF _ ret], intro impI, elim conjE)
    fix f p q t h s res
    assume IH: "\<And>p q t h s res. f p q t h s = Some res \<Longrightarrow> ?Q p q t h s res"
      and eq: "(if q_sq_head (queue_of s q) = t then Some (Inr (h, s))
        else (case process_one p q h s of Inl fa \<Rightarrow> Some (Inl fa)
          | Inr x \<Rightarrow> f p q t (fst x) (snd x))) = Some res"
      and "p = pl" "q = qid" "t = tail" "I h s"
    then show "\<exists>h' s'. res = Inr (h', s') \<and> I h' s' \<and> q_sq_head (queue_of s' qid) = tail"
      using step [of h s] by (cases "q_sq_head (queue_of s qid) = tail") auto
  qed
  then show ?thesis using init by simp
qed

text \<open>Whatever the guest submits, the engine never faults and never breaks the invariant.\<close>

lemma process_loop_safe:
  assumes "dma_buffer P" "process_loop P qid tail h s = Some res" "runnable qid s"
  shows "\<exists>h' s'. res = Inr (h', s') \<and> runnable qid s'"
  using process_loop_rule [where I = "\<lambda>h s. runnable qid s", OF assms(2,3)]
    process_one_total [OF assms(1)] by metis

section \<open>Iterating a bounded number of times\<close>

fun process_n ::
  "'h platform \<Rightarrow> u16 \<Rightarrow> nat \<Rightarrow> 'h \<Rightarrow> OpenFlashState \<Rightarrow> dev_fault + 'h \<times> OpenFlashState"
where
  "process_n P qid 0 h s = Inr (h, s)"
| "process_n P qid (Suc n) h s = and_then (process_one P qid h s) (\<lambda>p. process_n P qid n (fst p) (snd p))"

text \<open>None of the next \<open>n\<close> commands re-creates the queue that is being processed.  On the admin
  queue this always holds, since CREATE_IOQ refuses queue 0.\<close>

fun keeps_queue :: "'h platform \<Rightarrow> u16 \<Rightarrow> nat \<Rightarrow> 'h \<Rightarrow> OpenFlashState \<Rightarrow> bool" where
  "keeps_queue P qid 0 h s = True"
| "keeps_queue P qid (Suc n) h s =
     ((qid = 0 \<or> cmd_opcode (fetch_cmd P h (queue_of s qid)) \<noteq> OF_ADMIN_CREATE_IOQ) \<and>
      (case process_one P qid h s of Inl f \<Rightarrow> True | Inr p \<Rightarrow> keeps_queue P qid n (fst p) (snd p)))"

lemma keeps_queue_admin: "keeps_queue P 0 n h s"
  by (induction n arbitrary: h s) (auto split: sum.splits)

definition ring_distance :: "nat \<Rightarrow> nat \<Rightarrow> nat \<Rightarrow> nat" where
  "ring_distance d i j = (if i \<le> j then j - i else d + j - i)"

lemma ring_distance_step:
  assumes "i < d" "j < d" "i \<noteq> j"
  shows "ring_distance d i j = Suc (ring_distance d ((i + 1) mod d) j)" "(i + 1) mod d < d"
proof -
  show "(i + 1) mod d < d" using assms by simp
  show "ring_distance d i j = Suc (ring_distance d ((i + 1) mod d) j)"
  proof (cases "i + 1 = d")
    case True
    then show ?thesis using assms by (simp add: ring_distance_def)
  next
    case False
    then have "(i + 1) mod d = i + 1" using assms by simp
    then show ?thesis using assms by (simp add: ring_distance_def) linarith
  qed
qed

lemma ring_distance_0: "i < d \<Longrightarrow> j < d \<Longrightarrow> ring_distance d i j = 0 \<longleftrightarrow> i = j"
  by (auto simp: ring_distance_def)

lemma ring_distance_less: "i < d \<Longrightarrow> j < d \<Longrightarrow> ring_distance d i j < d"
  by (auto simp: ring_distance_def)

text \<open>One iteration that keeps the queue advances exactly that queue.\<close>

lemma process_one_kept:
  assumes "dma_buffer P" "runnable qid s"
    "qid = 0 \<or> cmd_opcode (fetch_cmd P h (queue_of s qid)) \<noteq> OF_ADMIN_CREATE_IOQ"
  shows "\<exists>h' s'. process_one P qid h s = Inr (h', s') \<and> runnable qid s' \<and>
    queue_of s' qid = advance_queue (queue_of s qid)"
proof -
  obtain c r h1 s1 where e: "exec_effect (fetch_cmd P h (queue_of s qid)) s s1"
    and p: "process_one P qid h s = Inr
      (pci_dma_write P h1 (q_cq_addr (queue_of s1 qid) + ucast (q_cq_tail (queue_of s1 qid)) * 64)
        (enc_OpenFlashCompletion (completion_for (fetch_cmd P h (queue_of s qid)) c r (queue_of s1 qid))),
       upd_queue qid advance_queue s1)"
    and r1: "runnable qid s1" and r2: "runnable qid (upd_queue qid advance_queue s1)"
    using process_one_total [OF assms(1,2), of h] by metis
  have "queue_of s1 qid = queue_of s qid"
    using assms(3) exec_effect_queue(1,2) [OF e] by auto
  moreover have "unat qid < length (s_queues s1)"
    using r1 by (simp add: runnable_def state_ok_def queues_ok_def)
  ultimately have "queue_of (upd_queue qid advance_queue s1) qid = advance_queue (queue_of s qid)"
    by (simp add: queue_of_upd_queue)
  then show ?thesis using p r2 by blast
qed

lemma process_loop_n:
  assumes "dma_buffer P" "runnable qid s" "unat (q_sq_head (queue_of s qid)) < unat (q_depth (queue_of s qid))"
    "unat tail < unat (q_depth (queue_of s qid))"
    "n = ring_distance (unat (q_depth (queue_of s qid))) (unat (q_sq_head (queue_of s qid))) (unat tail)"
    "keeps_queue P qid n h s"
  shows "\<exists>h' s'. process_loop P qid tail h s = Some (Inr (h', s')) \<and> process_n P qid n h s = Inr (h', s') \<and>
    runnable qid s' \<and> queue_of s' qid = (advance_queue ^^ n) (queue_of s qid)"
  using assms(2-)
proof (induction n arbitrary: h s)
  case 0
  then have "q_sq_head (queue_of s qid) = tail" by (simp add: ring_distance_0 word_unat_eq_iff)
  then show ?case using 0 by (simp add: process_loop.simps)
next
  case (Suc n)
  let ?q = "queue_of s qid"
  have d: "0 < unat (q_depth ?q)" "unat (q_depth ?q) \<le> 65536" using runnable_depth [OF Suc.prems(1)] by auto
  have ne: "q_sq_head ?q \<noteq> tail" using Suc.prems by (auto simp: ring_distance_def)
  then have ne': "unat (q_sq_head ?q) \<noteq> unat tail" by (simp add: unat_eq_iff)
  obtain h1 s1 where p: "process_one P qid h s = Inr (h1, s1)" and r: "runnable qid s1"
    and q: "queue_of s1 qid = advance_queue ?q"
    using process_one_kept [OF assms(1) Suc.prems(1)] Suc.prems(5) by fastforce
  have h1: "unat (q_sq_head (queue_of s1 qid)) = (unat (q_sq_head ?q) + 1) mod unat (q_depth ?q)"
    and d1: "q_depth (queue_of s1 qid) = q_depth ?q"
    by (simp_all add: q advance_queue_def unat_ring_succ [OF d])
  have "\<exists>h' s'. process_loop P qid tail h1 s1 = Some (Inr (h', s')) \<and> process_n P qid n h1 s1 = Inr (h', s') \<and>
      runnable qid s' \<and> queue_of s' qid = (advance_queue ^^ n) (queue_of s1 qid)"
    using Suc.prems p ring_distance_step [OF Suc.prems(2,3) ne'] by (intro Suc.IH r) (simp_all add: h1 d1)
  then show ?case using p ne q
    by (subst process_loop.simps) (simp add: funpow_swap1 del: funpow.simps add: funpow_Suc_right)
qed

section \<open>The handlers\<close>

lemma process_loop_admin:
  assumes "dma_buffer P" "runnable 0 s" "unat tail < unat (q_depth (queue_of s 0))"
  shows "\<exists>h' s'. process_loop P 0 tail h s = Some (Inr (h', s')) \<and> runnable 0 s'"
proof (cases "unat (q_sq_head (queue_of s 0)) < unat (q_depth (queue_of s 0))")
  case True
  then show ?thesis using process_loop_n [OF assms(1,2) True assms(3) refl keeps_queue_admin, of h] by blast
next
  case False
  obtain h1 s1 where p: "process_one P 0 h s = Inr (h1, s1)" and r: "runnable 0 s1"
    and q: "queue_of s1 0 = advance_queue (queue_of s 0)"
    using process_one_kept [OF assms(1,2)] by blast
  have d: "0 < unat (q_depth (queue_of s 0))" "unat (q_depth (queue_of s 0)) \<le> 65536"
    using runnable_depth [OF assms(2)] by auto
  have "unat (q_sq_head (queue_of s1 0)) < unat (q_depth (queue_of s1 0))"
    "q_depth (queue_of s1 0) = q_depth (queue_of s 0)"
    using d by (simp_all add: q [simplified] advance_queue_def unat_ring_succ [simplified])
  then have "\<exists>h' s'. process_loop P 0 tail h1 s1 = Some (Inr (h', s')) \<and> runnable 0 s'"
    using process_loop_n [OF assms(1) r _ _ refl keeps_queue_admin, of tail h1] assms(3) by auto
  moreover have "q_sq_head (queue_of s 0) \<noteq> tail" using False assms(3) by auto
  ultimately show ?thesis using p by (subst process_loop.simps) simp
qed

definition doorbell_open :: "OpenFlashState \<Rightarrow> u16 \<Rightarrow> u16 \<Rightarrow> bool" where
  "doorbell_open s qid tail \<longleftrightarrow> s_status s AND OF_STATUS_READY \<noteq> 0 \<and> q_enabled (queue_of s qid) \<and>
     unat tail < unat (q_depth (queue_of s qid))"

lemma doorbell_guard:
  "(s_status s AND OF_STATUS_READY = 0 \<or> \<not> q_enabled q \<or> q_depth q = 0 \<or> ucast (tail :: u16) \<ge> q_depth q) \<longleftrightarrow>
   \<not> (s_status s AND OF_STATUS_READY \<noteq> 0 \<and> q_enabled q \<and> unat tail < unat (q_depth q))"
  by (auto simp: word_le_nat_alt unat_eq_zero not_less)

lemma process_sq_closed:
  "unat qid < OF_MAX_QUEUES \<Longrightarrow> \<not> doorbell_open s qid tail \<Longrightarrow>
   openflash_process_sq P qid tail h s = Some (Inr (h, s))"
  unfolding openflash_process_sq_def Let_def doorbell_guard doorbell_open_def by simp

lemma process_sq_open:
  assumes "unat qid < OF_MAX_QUEUES" "doorbell_open s qid tail"
  shows "openflash_process_sq P qid tail h s =
    map_option (map_sum id (\<lambda>(h1, s1). (if msix_enabled P h1 then msix_notify P h1 (q_vector (queue_of s1 qid)) else h1, s1)))
      (process_loop P qid tail h s)"
  using assms unfolding openflash_process_sq_def Let_def doorbell_guard doorbell_open_def
  by (auto split: option.splits sum.splits)

lemma process_sq_safe:
  assumes "dma_buffer P" "state_ok s" "openflash_process_sq P qid tail h s = Some res"
  shows "\<exists>h' s'. res = Inr (h', s') \<and> state_ok s'"
proof (cases "unat qid < OF_MAX_QUEUES \<and> doorbell_open s qid tail")
  case True
  then have "runnable qid s" using assms(2) by (simp add: runnable_def doorbell_open_def)
  then show ?thesis
    using True assms process_loop_safe [OF assms(1)] by (fastforce simp: process_sq_open runnable_def)
next
  case False
  then have "openflash_process_sq P qid tail h s = Some (Inr (h, s))"
    using process_sq_closed [of qid s tail P h] by (auto simp: openflash_process_sq_def)
  then show ?thesis using assms(2,3) by simp
qed

lemma process_sq_admin:
  assumes "dma_buffer P" "state_ok s"
  shows "\<exists>h' s'. openflash_process_sq P 0 tail h s = Some (Inr (h', s')) \<and> state_ok s'"
proof (cases "doorbell_open s 0 tail")
  case True
  have "runnable 0 s" using True assms(2) by (simp add: runnable_def doorbell_open_def OF_MAX_QUEUES_def)
  then obtain h1 s1 where "process_loop P 0 tail h s = Some (Inr (h1, s1))" "runnable 0 s1"
    using process_loop_admin [OF assms(1), of s tail h] True by (auto simp: doorbell_open_def)
  then show ?thesis using True by (simp add: process_sq_open OF_MAX_QUEUES_def runnable_def)
next
  case False
  then show ?thesis using assms(2) by (simp add: process_sq_closed OF_MAX_QUEUES_def)
qed

text \<open>Register writes other than submission doorbells update one field group.\<close>

lemma queues_ok_upd_admin:
  "queues_ok s \<Longrightarrow> queue_ok (f (queue_of s 0)) \<Longrightarrow> queues_ok (upd_queue 0 f s)"
  by (rule queues_ok_upd_queue) (simp_all add: OF_MAX_QUEUES_def)

lemma queue_of_0_upd:
  "queues_ok s \<Longrightarrow> queue_of (upd_queue 0 f s) 0 = f (queue_of s 0)"
  using queue_of_upd_queue [of 0 s f 0] by (simp add: queues_ok_def OF_MAX_QUEUES_def)

lemma qsize_depth_bound:
  "unat (if 2 \<le> (v :: u64) \<and> v \<le> 4096 then ucast v else 0 :: u32) \<le> 4096"
proof (cases "2 \<le> v \<and> v \<le> 4096")
  case True
  then have "unat v \<le> 4096" by (simp add: word_le_nat_alt)
  moreover have "unat (ucast v :: u32) \<le> unat v" by (simp add: unsigned_ucast_eq take_bit_eq_mod)
  ultimately show ?thesis using True by simp
qed auto

lemma state_ok_register_updates:
  assumes "state_ok s"
  shows "state_ok (s\<lparr>s_control := c, s_status := st\<rparr>)"
    and "state_ok (upd_queue 0 (\<lambda>q. q\<lparr>q_sq_addr := f q\<rparr>) s)"
    and "state_ok (upd_queue 0 (\<lambda>q. q\<lparr>q_cq_addr := f q\<rparr>) s)"
    and "unat d \<le> 4096 \<Longrightarrow> state_ok (upd_queue 0 (\<lambda>q. q\<lparr>q_enabled := (q_depth q \<noteq> 0)\<rparr>)
      (upd_queue 0 (\<lambda>q. q\<lparr>q_depth := d\<rparr>) s))"
    and "unat qid < OF_MAX_QUEUES \<Longrightarrow> state_ok (upd_queue qid (\<lambda>q. q\<lparr>q_cq_head := x\<rparr>) s)"
proof -
  have m: "media_ok s" and q: "queues_ok s" and q0: "queue_ok (queue_of s 0)"
    using assms queues_ok_nth [of s 0] by (auto simp: state_ok_def OF_MAX_QUEUES_def)
  have l: "unat (0 :: u16) < length (s_queues s)" using q by (simp add: queues_ok_def OF_MAX_QUEUES_def)
  show "state_ok (s\<lparr>s_control := c, s_status := st\<rparr>)"
    using m q by (simp add: state_ok_def media_ok_def queues_ok_def)
  show "state_ok (upd_queue 0 (\<lambda>q. q\<lparr>q_sq_addr := f q\<rparr>) s)"
    "state_ok (upd_queue 0 (\<lambda>q. q\<lparr>q_cq_addr := f q\<rparr>) s)"
    using m q q0 by (auto intro!: queues_ok_upd_admin simp: state_ok_def queue_ok_def)
  show "state_ok (upd_queue 0 (\<lambda>q. q\<lparr>q_enabled := (q_depth q \<noteq> 0)\<rparr>)
      (upd_queue 0 (\<lambda>q. q\<lparr>q_depth := d\<rparr>) s))" if "unat d \<le> 4096"
    using m q q0 that unfolding upd_queue_upd_queue [OF l]
    by (auto intro!: queues_ok_upd_admin simp: state_ok_def queue_ok_def unat_gt_0)
  show "state_ok (upd_queue qid (\<lambda>q. q\<lparr>q_cq_head := x\<rparr>) s)" if "unat qid < OF_MAX_QUEUES"
    using m q queues_ok_nth [OF q that] that
    by (auto intro!: queues_ok_upd_queue simp: state_ok_def queue_ok_def)
qed

text \<open>The queue a doorbell address belongs to.\<close>

abbreviation is_doorbell :: "u64 \<Rightarrow> bool" where
  "is_doorbell addr \<equiv> OF_REG_DOORBELL_BASE \<le> addr \<and> addr < OF_REG_DOORBELL_BASE + of_nat OF_MAX_QUEUES * 8"

abbreviation doorbell_qid :: "u64 \<Rightarrow> u16" where
  "doorbell_qid addr \<equiv> ucast ((addr - OF_REG_DOORBELL_BASE) div 8)"

abbreviation is_sq_doorbell :: "u64 \<Rightarrow> bool" where
  "is_sq_doorbell addr \<equiv> is_doorbell addr \<and> (addr - OF_REG_DOORBELL_BASE) mod 8 = 0"

lemma doorbell_qid_bound:
  assumes "is_doorbell addr"
  shows "unat (doorbell_qid addr) < OF_MAX_QUEUES"
proof -
  have "unat (addr - OF_REG_DOORBELL_BASE) < 16"
    using assms by (simp add: OF_REG_DOORBELL_BASE_def OF_MAX_QUEUES_def unat_sub word_le_nat_alt word_less_nat_alt) linarith
  then have "unat ((addr - OF_REG_DOORBELL_BASE) div 8) < 2" by (simp add: unat_div)
  moreover have "unat (doorbell_qid addr) \<le> unat ((addr - OF_REG_DOORBELL_BASE) div 8)"
    by (simp add: unsigned_ucast_eq take_bit_eq_mod)
  ultimately show ?thesis by (simp add: OF_MAX_QUEUES_def)
qed

text \<open>A write that is not a submission doorbell is total and keeps the device well formed.\<close>

lemma mmio_write_register:
  assumes "state_ok s" "\<not> is_sq_doorbell addr"
  shows "\<exists>s'. openflash_mmio_write P addr v h s = Some (Inr (h, s')) \<and> state_ok s'"
proof -
  have "state_ok (openflash_reset s)" using assms(1) by (simp add: reset_state_ok state_ok_def [of s])
  then show ?thesis
    using assms state_ok_register_updates [OF assms(1)] qsize_depth_bound doorbell_qid_bound [of addr]
    unfolding openflash_mmio_write_def Let_def by (simp split del: if_split split: if_split)
qed

lemma mmio_write_doorbell:
  assumes "is_sq_doorbell addr"
  shows "openflash_mmio_write P addr v h s = openflash_process_sq P (doorbell_qid addr) (ucast v) h s"
proof -
  have "addr \<notin> {OF_REG_CONTROL, OF_REG_ADMIN_SQ_LO, OF_REG_ADMIN_SQ_HI, OF_REG_ADMIN_CQ_LO, OF_REG_ADMIN_CQ_HI, OF_REG_ADMIN_QSIZE}"
    using assms by (auto simp: of_consts)
  then show ?thesis using assms by (simp add: openflash_mmio_write_def)
qed

lemma mmio_write_safe:
  assumes "dma_buffer P" "state_ok s" "openflash_mmio_write P addr v h s = Some res"
  shows "\<exists>h' s'. res = Inr (h', s') \<and> state_ok s'"
proof (cases "is_sq_doorbell addr")
  case True
  then show ?thesis using process_sq_safe [OF assms(1,2)] assms(3) by (auto simp: mmio_write_doorbell)
next
  case False
  then show ?thesis using mmio_write_register [OF assms(2) False, of P v h] assms(3) by auto
qed

end
