(* ===== verification/Controller_Spec.thy ===== *)
theory Controller_Spec
  imports Controller
begin

text \<open>
  What the register file and queue engine of the QEMU device guarantee in every state a guest can bring
  it to: absence of faults, which handlers return and which may not, what a completed command leaves in
  guest memory, and the behaviour of reset, realization and the configuration registers.
\<close>

section \<open>Everything a guest can do to the device\<close>

text \<open>The device is realized once.  Then the guest, its processors and the host may do anything to what
  is outside the device, and every register write that returns takes the device to its next state.\<close>

inductive reachable :: "'h platform \<Rightarrow> 'h \<Rightarrow> OpenFlashState \<Rightarrow> bool" for P :: "'h platform" where
  realized: "openflash_realize P h s = (None, h', s') \<Longrightarrow> reachable P h' s'"
| outside: "reachable P h s \<Longrightarrow> reachable P h' s"
| mmio: "reachable P h s \<Longrightarrow> openflash_mmio_write P addr v h s = Some (Inr (h', s')) \<Longrightarrow> reachable P h' s'"

lemma realize_state_ok:
  assumes "openflash_realize P h s = (None, h', s')"
  shows "state_ok s'"
proof -
  have cap: "4096 \<le> unat (s_capacity s)" "unat (s_capacity s) mod 4096 = 0"
    using assms by (auto simp: openflash_realize_def OF_BLOCK_SIZE_def word_less_nat_alt unat_mod word_unat_eq_iff
        split: if_splits)
  have "\<exists>st. s' = openflash_reset (s\<lparr>s_storage := Some st\<rparr>) \<and> length st = unat (s_capacity s)"
    using assms by (auto simp: openflash_realize_def Let_def split: if_splits option.splits prod.splits)
  then show ?thesis using cap by (auto intro!: reset_state_ok simp: media_ok_def)
qed

lemma reachable_state_ok:
  "reachable P h s \<Longrightarrow> dma_buffer P \<Longrightarrow> state_ok s"
proof (induction rule: reachable.induct)
  case (mmio h s addr v h' s')
  then show ?case using mmio_write_safe [of P s addr v h] by auto
qed (auto intro: realize_state_ok)

text \<open>C1: In every state a guest can bring the device to, with any sequence of register writes and any
  contents of its memory, the device is well formed, and no further register write makes it read or
  write outside its storage, use missing storage or divide by zero: whenever the handler returns, it
  returns without a fault.\<close>

theorem device_never_faults:
  assumes "dma_buffer P" "reachable P h s"
  shows "state_ok s \<and> openflash_mmio_write P addr v h s \<noteq> Some (Inl fault)"
  using reachable_state_ok [OF assms(2,1)] mmio_write_safe [OF assms(1), of s addr v h "Inl fault"] by auto

definition fresh_device :: OpenFlashState where
  "fresh_device = blank_device\<lparr>s_queues := [zero_queue\<lparr>q_cq_phase := 1\<rparr>, zero_queue]\<rparr>"

lemma realize_blank: "openflash_realize ram_platform blank_host blank_device = (None, blank_host, fresh_device)"
  by (simp add: openflash_realize_def OF_BLOCK_SIZE_def openflash_reset_eq fresh_device_def)
    (simp add: blank_device_def)

theorem device_never_faults_witness:
  "state_ok fresh_device \<and> openflash_mmio_write ram_platform 0x1008 5 blank_host fresh_device \<noteq> Some (Inl Division_by_zero)"
  by (rule device_never_faults [OF ram.dma_buffer_axioms reachable.realized [OF realize_blank]])

text \<open>C8: Every register write returns, except possibly the submission doorbell of the I/O queue: control
  and admin configuration writes, completion doorbells, writes to unassigned offsets, and also the admin
  submission doorbell, where the device may have to execute many commands.\<close>

theorem mmio_write_returns:
  assumes "dma_buffer P" "reachable P h s" "\<not> (is_sq_doorbell addr \<and> doorbell_qid addr = 1)"
  shows "\<exists>h' s'. openflash_mmio_write P addr v h s = Some (Inr (h', s')) \<and> state_ok s'"
proof (cases "is_sq_doorbell addr")
  case True
  then have "doorbell_qid addr = 0"
    using doorbell_qid_bound [of addr] assms(3) by (auto simp: OF_MAX_QUEUES_def word_unat_eq_iff less_2_cases_iff)
  then show ?thesis
    using process_sq_admin [OF assms(1) reachable_state_ok [OF assms(2,1)]] True by (simp add: mmio_write_doorbell)
next
  case False
  then show ?thesis using mmio_write_register [OF reachable_state_ok [OF assms(2,1)] False, of P v h] by blast
qed

theorem mmio_write_returns_witness:
  "\<exists>h' s'. openflash_mmio_write ram_platform 0x1000 3 blank_host fresh_device = Some (Inr (h', s')) \<and> state_ok s'"
  by (rule mmio_write_returns [OF ram.dma_buffer_axioms reachable.realized [OF realize_blank]])
    (simp add: of_consts)

lemma process_loop_head:
  assumes "dma_buffer P" "process_loop P qid tail h s = Some (Inr (h', s'))" "runnable qid s"
  shows "q_sq_head (queue_of s' qid) = tail"
  using process_loop_rule [where I = "\<lambda>h s. runnable qid s", OF assms(2,3)]
    process_one_total [OF assms(1)] by (metis Inr_inject old.prod.inject)

text \<open>C7: The I/O submission doorbell: when none of the newly submitted commands is a CREATE_IOQ, the device
  executes exactly the commands between its head and the new tail, in ring order, advances the head to the
  tail and the completion cursor by the same number of slots, and returns after raising the queue's
  interrupt.\<close>

theorem io_doorbell_completes:
  assumes "dma_buffer P" "state_ok s" "doorbell_open s 1 tail"
    and head: "unat (q_sq_head (queue_of s 1)) < unat (q_depth (queue_of s 1))"
    and "n = ring_distance (unat (q_depth (queue_of s 1))) (unat (q_sq_head (queue_of s 1))) (unat tail)"
    and "keeps_queue P 1 n h s"
  shows "\<exists>h1 s1. process_n P 1 n h s = Inr (h1, s1) \<and> state_ok s1 \<and>
    openflash_process_sq P 1 tail h s =
      Some (Inr (if msix_enabled P h1 then msix_notify P h1 (q_vector (queue_of s 1)) else h1, s1)) \<and>
    q_sq_head (queue_of s1 1) = tail \<and> queue_of s1 1 = (advance_queue ^^ n) (queue_of s 1)"
proof -
  have r: "runnable 1 s" using assms(2,3) by (simp add: runnable_def doorbell_open_def OF_MAX_QUEUES_def)
  have t: "unat tail < unat (q_depth (queue_of s 1))" using assms(3) by (simp add: doorbell_open_def)
  obtain h1 s1 where l: "process_loop P 1 tail h s = Some (Inr (h1, s1))" "process_n P 1 n h s = Inr (h1, s1)"
      "runnable 1 s1" "queue_of s1 1 = (advance_queue ^^ n) (queue_of s 1)"
    using process_loop_n [OF assms(1) r head t assms(5,6)] by blast
  have "q_vector ((advance_queue ^^ n) q) = q_vector q" for q
    by (induction n) (simp_all add: advance_queue_def)
  then have v: "q_vector (queue_of s1 1) = q_vector (queue_of s 1)" using l(4) by simp
  have "q_sq_head (queue_of s1 1) = tail" using process_loop_head [OF assms(1) l(1) r] .
  then show ?thesis using l assms(3) v by (simp add: process_sq_open OF_MAX_QUEUES_def runnable_def)
qed

definition ring_device :: "u32 \<Rightarrow> OpenFlashState" where
  "ring_device depth = blank_device\<lparr>s_status := OF_STATUS_READY, s_queues := [zero_queue\<lparr>q_cq_phase := 1\<rparr>,
     \<lparr>q_sq_addr = 0x10000, q_cq_addr = 0x20000, q_depth = depth, q_sq_head = 0, q_cq_tail = 0, q_cq_head = 0,
      q_vector = 1, q_cq_phase = 1, q_enabled = True\<rparr>]\<rparr>"

lemma ring_device_ok: "0 < unat depth \<Longrightarrow> unat depth \<le> 4096 \<Longrightarrow> state_ok (ring_device depth)"
  using blank_device_ok(2)
  by (simp add: ring_device_def state_ok_def media_ok_def queues_ok_def queue_ok_def zero_queue_def OF_MAX_QUEUES_def)

lemma ring_device_open: "unat tail < unat depth \<Longrightarrow> doorbell_open (ring_device depth) 1 tail"
  by (simp add: ring_device_def doorbell_open_def OF_STATUS_READY_def)

lemma fetch_sevens: "cmd_opcode (fetch_cmd ram_platform blank_host q) = 7"
  by (simp add: fetch_cmd_def dec_OpenFlashCommand_def mem_load_def map_replicate_const Let_def)

theorem io_doorbell_completes_witness:
  "\<exists>h1 s1. process_n ram_platform 1 1 blank_host (ring_device 4) = Inr (h1, s1) \<and> state_ok s1 \<and>
    openflash_process_sq ram_platform 1 1 blank_host (ring_device 4) = Some (Inr (if msix_enabled ram_platform h1
      then msix_notify ram_platform h1 (q_vector (queue_of (ring_device 4) 1)) else h1, s1)) \<and>
    q_sq_head (queue_of s1 1) = 1 \<and> queue_of s1 1 = (advance_queue ^^ 1) (queue_of (ring_device 4) 1)"
proof (rule io_doorbell_completes [OF ram.dma_buffer_axioms ring_device_ok ring_device_open])
  show "keeps_queue ram_platform 1 1 blank_host (ring_device 4)"
    by (simp add: fetch_sevens of_opcodes split: sum.splits)
qed (simp_all add: ring_device_def ring_distance_def)

section \<open>A doorbell that never returns\<close>

text \<open>CREATE_IOQ is accepted on the I/O queue, for the I/O queue.  The queue under the running fetch loop
  is then a fresh one, whose head is 0.\<close>

abbreviation recreates :: "OpenFlashCommand \<Rightarrow> bool" where
  "recreates c \<equiv> cmd_opcode c = OF_ADMIN_CREATE_IOQ \<and> unat (cmd_control c) mod 65536 = 1 \<and>
     unat (cmd_control c) div 65536 < 2 \<and> 1 \<le> unat (cmd_nblocks c) \<and> unat (cmd_nblocks c) \<le> 4096 \<and>
     cmd_data_addr c \<noteq> 0 \<and> cmd_metadata_addr c \<noteq> 0"

abbreviation second_slot :: "OpenFlashCommand \<Rightarrow> u64" where
  "second_slot c \<equiv> cmd_data_addr c + ucast (ring_succ 0 (cmd_nblocks c)) * 64"

lemma execute_recreate:
  assumes "queues_ok s" "recreates c"
  shows "\<exists>s1. openflash_execute P c h s = Inr (OF_SC_SUCCESS, 1, h, s1) \<and>
    q_cq_addr (queue_of s1 1) = cmd_metadata_addr c \<and> q_cq_tail (queue_of s1 1) = 0 \<and>
    q_sq_addr (queue_of s1 1) = cmd_data_addr c \<and> q_sq_head (queue_of s1 1) = 0 \<and>
    q_depth (queue_of s1 1) = cmd_nblocks c"
  using assms unfolding create_ioq_eq [OF assms(1) conjunct1 [OF assms(2)]] by simp

lemma process_one_recreate:
  assumes "guest_memory P" "runnable 1 s" and c: "fetch_cmd P h (queue_of s 1) = c" "recreates c"
    and slot: "dec_OpenFlashCommand (guest_bytes P h (second_slot c) 64) = c"
      "apart (second_slot c) 64 (cmd_metadata_addr c) 64"
  shows "\<exists>h' s'. process_one P 1 h s = Inr (h', s') \<and> runnable 1 s' \<and> fetch_cmd P h' (queue_of s' 1) = c \<and>
    q_sq_head (queue_of s' 1) = ring_succ 0 (cmd_nblocks c) \<and>
    dec_OpenFlashCommand (guest_bytes P h' (second_slot c) 64) = c"
proof -
  obtain st r h1 s1 where x: "openflash_execute P c h s = Inr (st, r, h1, s1)"
    and p: "process_one P 1 h s = Inr
      (pci_dma_write P h1 (q_cq_addr (queue_of s1 1) + ucast (q_cq_tail (queue_of s1 1)) * 64)
        (enc_OpenFlashCompletion (completion_for c st r (queue_of s1 1))),
       upd_queue 1 advance_queue s1)" and r: "runnable 1 s1" "runnable 1 (upd_queue 1 advance_queue s1)"
    using process_one_total [OF guest_memory.axioms(1) [OF assms(1)] assms(2), of h] unfolding c(1) by metis
  have s1: "h1 = h" "q_cq_addr (queue_of s1 1) = cmd_metadata_addr c" "q_cq_tail (queue_of s1 1) = 0"
    "q_sq_addr (queue_of s1 1) = cmd_data_addr c" "q_sq_head (queue_of s1 1) = 0" "q_depth (queue_of s1 1) = cmd_nblocks c"
    using execute_recreate [of s c P h] c(2) x assms(2) by (auto simp: runnable_def state_ok_def)
  let ?h = "pci_dma_write P h (cmd_metadata_addr c) (enc_OpenFlashCompletion (completion_for c st r (queue_of s1 1)))"
  have g: "guest_bytes P ?h (second_slot c) 64 = guest_bytes P h (second_slot c) 64"
    using guest_memory.guest_bytes_write_apart [OF assms(1)] slot(2) by simp
  have l: "unat (1 :: u16) < length (s_queues s1)"
    using r(1) by (simp add: runnable_def state_ok_def queues_ok_def)
  have "queue_of (upd_queue 1 advance_queue s1) 1 = advance_queue (queue_of s1 1)"
    using queue_of_upd_queue [OF l, of advance_queue 1] by simp
  then show ?thesis
    using p r(2) g slot(1) s1 by (simp add: fetch_cmd_def guest_bytes_def advance_queue_def)
qed

text \<open>C9: The submission doorbell of the I/O queue may never return.  When the next command on the I/O queue
  is a valid CREATE_IOQ for that same queue, the second slot of the ring it names holds the same command
  and the rung tail is not that slot, the device re-creates the queue again and again: the emulator's
  thread is stuck in the register write.\<close>

theorem io_doorbell_may_not_return:
  assumes "guest_memory P" "state_ok s" "doorbell_open s 1 tail" "q_sq_head (queue_of s 1) \<noteq> tail"
    and c: "fetch_cmd P h (queue_of s 1) = c" "recreates c" "ring_succ 0 (cmd_nblocks c) \<noteq> tail"
    and slot: "dec_OpenFlashCommand (guest_bytes P h (second_slot c) 64) = c"
      "apart (second_slot c) 64 (cmd_metadata_addr c) 64"
  shows "openflash_process_sq P 1 tail h s = None"
proof (cases "process_loop P 1 tail h s")
  case None
  then show ?thesis using assms(3) by (simp add: process_sq_open OF_MAX_QUEUES_def)
next
  case (Some res)
  let ?I = "\<lambda>h s. runnable 1 s \<and> fetch_cmd P h (queue_of s 1) = c \<and> q_sq_head (queue_of s 1) \<noteq> tail \<and>
    dec_OpenFlashCommand (guest_bytes P h (second_slot c) 64) = c"
  have "?I h s" using assms by (simp add: runnable_def doorbell_open_def OF_MAX_QUEUES_def)
  moreover have "\<exists>h' s'. process_one P 1 h s = Inr (h', s') \<and> ?I h' s'" if "?I h s" for h s
    using process_one_recreate [OF assms(1), of s h c] that c(2,3) slot(2) by fastforce
  ultimately show ?thesis using process_loop_rule [where I = ?I, OF Some] by blast
qed

definition looping_command :: openflash_command where
  "looping_command = zero_command\<lparr>oc_opcode := 0x81, oc_nblocks := 1, oc_control := 0x10001,
     oc_data_addr := 0x10000, oc_metadata_addr := 0x20000\<rparr>"

definition looping_host :: host where
  "looping_host = blank_host\<lparr>h_ram := mem_store (\<lambda>_. 0) 0x10000 (enc_command looping_command)\<rparr>"

theorem io_doorbell_may_not_return_witness:
  "openflash_process_sq ram_platform 1 1 looping_host (ring_device 4) = None"
proof -
  let ?c = "dev_command looping_command"
  have m: "mem_load (h_ram looping_host) 0x10000 64 = enc_command looping_command"
    using mem_load_store_same [of "enc_command looping_command"] by (simp add: looping_host_def)
  have f: "fetch_cmd ram_platform looping_host (queue_of (ring_device 4) 1) = ?c"
    using m by (simp add: fetch_cmd_def ring_device_def dec_OpenFlashCommand_enc)
  have s: "dec_OpenFlashCommand (guest_bytes ram_platform looping_host (second_slot ?c) 64) = ?c"
    using m by (simp add: guest_bytes_def looping_command_def ring_succ_def)
      (simp add: looping_command_def [symmetric] dec_OpenFlashCommand_enc)
  show ?thesis
    by (rule io_doorbell_may_not_return [OF ram.guest_memory_axioms ring_device_ok ring_device_open _ f _ _ s])
      (simp_all add: ring_device_def looping_command_def zero_command_def OF_ADMIN_CREATE_IOQ_def ring_succ_def apart_def)
qed

section \<open>What a command leaves in guest memory\<close>

text \<open>C6: Every fetched command is answered exactly once: after one iteration, the slot at the completion cursor
  of the queue holds, as the driver decodes it, the status and result of the executed command together
  with its command identifier and user data, the advanced submission head and the current phase; the
  answer overwrites nothing else, and the cursor moves to the next slot.\<close>

theorem completion_posted:
  assumes "guest_memory P" "runnable qid s"
  shows "\<exists>status result h1 s1 h' s'.
    openflash_execute P (fetch_cmd P h (queue_of s qid)) h s = Inr (status, result, h1, s1) \<and>
    process_one P qid h s = Inr (h', s') \<and> queue_of s' qid = advance_queue (queue_of s1 qid) \<and>
    dec_completion (guest_bytes P h' (q_cq_addr (queue_of s1 qid) + ucast (q_cq_tail (queue_of s1 qid)) * 64) 64) =
      \<lparr>oe_result = result, oe_user_data = cmd_user_data (fetch_cmd P h (queue_of s qid)),
       oe_sq_head = q_sq_head (queue_of s' qid), oe_cid = cmd_cid (fetch_cmd P h (queue_of s qid)),
       oe_status = status, oe_flags = ucast (q_cq_phase (queue_of s1 qid)), oe_reserved = (0, 0, 0, 0, 0)\<rparr> \<and>
    (\<forall>a n. apart a n (q_cq_addr (queue_of s1 qid) + ucast (q_cq_tail (queue_of s1 qid)) * 64) 64 \<longrightarrow>
      guest_bytes P h' a n = guest_bytes P h1 a n)"
proof -
  let ?c = "fetch_cmd P h (queue_of s qid)"
  obtain status result h1 s1 where x: "openflash_execute P ?c h s = Inr (status, result, h1, s1)"
    and p: "process_one P qid h s = Inr
      (pci_dma_write P h1 (q_cq_addr (queue_of s1 qid) + ucast (q_cq_tail (queue_of s1 qid)) * 64)
        (enc_OpenFlashCompletion (completion_for ?c status result (queue_of s1 qid))),
       upd_queue qid advance_queue s1)" and r: "runnable qid s1"
    using process_one_total [OF guest_memory.axioms(1) [OF assms(1)] assms(2), of h] by metis
  let ?e = "completion_for ?c status result (queue_of s1 qid)"
  let ?a = "q_cq_addr (queue_of s1 qid) + ucast (q_cq_tail (queue_of s1 qid)) * 64"
  have q: "queue_of (upd_queue qid advance_queue s1) qid = advance_queue (queue_of s1 qid)"
    using r by (simp add: queue_of_upd_queue runnable_def state_ok_def queues_ok_def)
  have "guest_bytes P (pci_dma_write P h1 ?a (enc_OpenFlashCompletion ?e)) ?a 64 = enc_OpenFlashCompletion ?e"
    using guest_memory.guest_bytes_write_same [OF assms(1), of "enc_OpenFlashCompletion ?e"] by simp
  moreover have "guest_bytes P (pci_dma_write P h1 ?a (enc_OpenFlashCompletion ?e)) a n = guest_bytes P h1 a n"
    if "apart a n ?a 64" for a n
    using guest_memory.guest_bytes_write_apart [OF assms(1)] that by simp
  ultimately show ?thesis
    using x p q by (simp add: enc_OpenFlashCompletion_eq dec_enc_completion)
      (simp add: host_completion_def completion_for_def advance_queue_def)
qed

theorem completion_posted_witness:
  "\<exists>status result h1 s1 h' s'.
    openflash_execute ram_platform (fetch_cmd ram_platform blank_host (queue_of (ring_device 4) 1)) blank_host (ring_device 4)
      = Inr (status, result, h1, s1) \<and>
    process_one ram_platform 1 blank_host (ring_device 4) = Inr (h', s') \<and>
    queue_of s' 1 = advance_queue (queue_of s1 1)"
  using completion_posted [OF ram.guest_memory_axioms, of 1 "ring_device 4" blank_host] ring_device_ok [of 4]
  by (simp add: runnable_def OF_MAX_QUEUES_def) (auto simp: ring_device_def)

section \<open>Configuration registers\<close>

lemma low_mask: "(0xffffffff :: u64) = mask 32"
  by (simp add: mask_eq_exp_minus_1)

lemma small_is_u32:
  assumes "(v :: u64) < 2 ^ 32"
  shows "(ucast (ucast v :: u32) :: u64) = v"
proof -
  have "unat v < 2 ^ 32" using assms by (simp add: word_less_nat_alt)
  then show ?thesis by (simp add: word_unat_eq_iff unsigned_ucast_eq unsigned_take_bit_eq take_bit_nat_eq_self)
qed

lemma set_halves:
  assumes "v < 2 ^ 32"
  shows "(ucast (ucast (set_lo a v) :: u32) :: u64) = v" "drop_bit 32 (set_lo a v) = drop_bit 32 a"
    "(ucast (ucast (set_hi a v) :: u32) :: u64) = (ucast (ucast a :: u32))" "drop_bit 32 (set_hi a v) = v"
proof -
  obtain w :: u32 where w: "v = ucast w" using small_is_u32 [OF assms] by metis
  show "(ucast (ucast (set_lo a v) :: u32) :: u64) = v" "drop_bit 32 (set_lo a v) = drop_bit 32 a"
    "(ucast (ucast (set_hi a v) :: u32) :: u64) = (ucast (ucast a :: u32))" "drop_bit 32 (set_hi a v) = v"
    unfolding w set_lo_def set_hi_def low_mask
    by (rule bit_word_eqI; simp only: bit_simps bit_or_iff bit_and_iff bit_not_iff o_apply; auto dest: bit_imp_le_length)+
qed

text \<open>The registers a guest reads back.\<close>

lemmas reg_simps = OF_REG_ABI_VERSION_def OF_REG_CAPABILITIES_def OF_REG_CONTROL_def OF_REG_STATUS_def
  OF_REG_ADMIN_SQ_LO_def OF_REG_ADMIN_SQ_HI_def OF_REG_ADMIN_CQ_LO_def OF_REG_ADMIN_CQ_HI_def
  OF_REG_ADMIN_QSIZE_def OF_REG_DOORBELL_BASE_def

lemma queue_of_admin_update:
  assumes "state_ok s"
  shows "queue_of (upd_queue 0 f s) 0 = f (queue_of s 0)" "s_control (upd_queue 0 f s) = s_control s"
    "s_status (upd_queue 0 f s) = s_status s"
  using assms queue_of_0_upd [of s f] by (auto simp: state_ok_def upd_queue_def)

text \<open>C20: The 32-bit halves of the admin ring addresses are read back as written, a half leaves the other half
  and every other register alone, and the queue depth register reads back a depth between 2 and 4096 as
  written and any other value as 0, in which case the admin queue is disabled.\<close>

theorem admin_register_readback:
  assumes "state_ok s" "v < 2 ^ 32"
    and "addr \<in> {OF_REG_ADMIN_SQ_LO, OF_REG_ADMIN_SQ_HI, OF_REG_ADMIN_CQ_LO, OF_REG_ADMIN_CQ_HI, OF_REG_ADMIN_QSIZE}"
  shows "\<exists>s'. openflash_mmio_write P addr v h s = Some (Inr (h, s')) \<and>
    openflash_mmio_read s' addr = (if addr = OF_REG_ADMIN_QSIZE \<and> \<not> (2 \<le> v \<and> v \<le> 4096) then 0 else v) \<and>
    (\<forall>other. other \<noteq> addr \<longrightarrow> openflash_mmio_read s' other = openflash_mmio_read s other) \<and>
    (addr = OF_REG_ADMIN_QSIZE \<longrightarrow> q_enabled (queue_of s' 0) = (2 \<le> v \<and> v \<le> 4096))"
proof -
  note simps = openflash_mmio_write_def openflash_mmio_read_def queue_of_admin_update [OF assms(1), simplified] reg_simps
  have l: "0 < length (s_queues s)" using assms(1) by (simp add: state_ok_def queues_ok_def OF_MAX_QUEUES_def)
  consider "addr = OF_REG_ADMIN_SQ_LO" | "addr = OF_REG_ADMIN_SQ_HI" | "addr = OF_REG_ADMIN_CQ_LO"
    | "addr = OF_REG_ADMIN_CQ_HI" | "addr = OF_REG_ADMIN_QSIZE" using assms(3) by blast
  then show ?thesis
  proof cases
    case 5
    then show ?thesis using l small_is_u32 [OF assms(2)]
      by (auto simp: openflash_mmio_write_def openflash_mmio_read_def reg_simps upd_queue_def)
  qed (simp_all add: simps set_halves [OF assms(2)])
qed

theorem admin_register_readback_witness:
  "\<exists>s'. openflash_mmio_write ram_platform 0x24 5 blank_host fresh_device = Some (Inr (blank_host, s')) \<and>
    openflash_mmio_read s' 0x24 = 5 \<and> openflash_mmio_read s' 0x20 = openflash_mmio_read fresh_device 0x20"
proof -
  have "state_ok fresh_device" by (rule realize_state_ok [OF realize_blank])
  then show ?thesis
    using admin_register_readback [of fresh_device 5 "0x24" ram_platform blank_host] by (auto simp: reg_simps)
qed



section \<open>Life cycle\<close>

text \<open>The medium a realized device starts with: the image file when there is one, else zeroes.\<close>

definition initial_image :: "'h platform \<Rightarrow> 'h \<Rightarrow> OpenFlashState \<Rightarrow> u8 list option" where
  "initial_image P h s =
     (case s_backing_file s of
        Some f \<Rightarrow> if g_file_test P h f then g_file_get_contents P h f else Some (replicate (unat (s_capacity s)) 0)
      | None \<Rightarrow> Some (replicate (unat (s_capacity s)) 0))"

lemma realize_eq:
  assumes "\<not> s_capacity s < OF_BLOCK_SIZE" "s_capacity s mod OF_BLOCK_SIZE = 0"
  shows "openflash_realize P h s =
    (case initial_image P h s of
       None \<Rightarrow> (Some Cannot_load, h, s\<lparr>s_storage := None\<rparr>)
     | Some img \<Rightarrow>
         if length img \<noteq> unat (s_capacity s) then (Some Bad_image_size, h, s\<lparr>s_storage := None\<rparr>)
         else (case msix_init_exclusive_bar P h OF_MAX_QUEUES of (failed, h1) \<Rightarrow>
           if failed then (Some Msix_failed, h1, s\<lparr>s_storage := None\<rparr>)
           else (None, h1, openflash_reset (s\<lparr>s_storage := Some img\<rparr>))))"
  using assms by (auto simp: openflash_realize_def initial_image_def Let_def split: option.splits prod.splits)

text \<open>C18: Realizing the device succeeds exactly when the capacity is a positive number of whole blocks, an
  existing image file can be read and has that size, and the interrupt vectors can be set up.  On success
  the medium is the image, or zeroes when there is no image file, and the device is well formed and not
  ready; on a failure after the capacity check the allocated storage is released.\<close>

theorem openflash_realize_outcome:
  "\<exists>err h' s'. openflash_realize P h s = (err, h', s') \<and>
    (err = None \<longleftrightarrow> \<not> s_capacity s < OF_BLOCK_SIZE \<and> s_capacity s mod OF_BLOCK_SIZE = 0 \<and>
      map_option length (initial_image P h s) = Some (unat (s_capacity s)) \<and>
      \<not> fst (msix_init_exclusive_bar P h OF_MAX_QUEUES)) \<and>
    (if err = None then s_storage s' = initial_image P h s \<and> state_ok s' \<and> s_status s' = 0
     else if err = Some Bad_capacity then s' = s else s' = s\<lparr>s_storage := None\<rparr>)"
proof (cases "s_capacity s < OF_BLOCK_SIZE \<or> s_capacity s mod OF_BLOCK_SIZE \<noteq> 0")
  case True
  then show ?thesis by (cases "s_capacity s < OF_BLOCK_SIZE") (simp_all add: openflash_realize_def)
next
  case False
  then have c: "\<not> s_capacity s < OF_BLOCK_SIZE" "s_capacity s mod OF_BLOCK_SIZE = 0" by auto
  show ?thesis
  proof (cases "map_option length (initial_image P h s) = Some (unat (s_capacity s)) \<and>
      \<not> fst (msix_init_exclusive_bar P h OF_MAX_QUEUES)")
    case True
    then obtain h' st where i: "initial_image P h s = Some st" "length st = unat (s_capacity s)"
      and m: "msix_init_exclusive_bar P h OF_MAX_QUEUES = (False, h')"
      by (cases "msix_init_exclusive_bar P h OF_MAX_QUEUES") auto
    have r: "openflash_realize P h s = (None, h', openflash_reset (s\<lparr>s_storage := Some st\<rparr>))"
      by (simp add: realize_eq [OF c] i m)
    show ?thesis using True c i realize_state_ok [OF r] unfolding r by simp (simp add: openflash_reset_eq)
  next
    case False
    then show ?thesis
      by (auto simp: realize_eq [OF c] split: option.splits prod.splits if_splits)
  qed
qed

text \<open>C11: What was made durable survives a power cycle: after a successful FLUSH or forced-unit-access WRITE
  on a device with a backing file, a device realized later with the same capacity and backing file starts
  with the medium as it was then, whatever the old device held afterwards in memory.\<close>

theorem power_cycle_keeps_medium:
  assumes "guest_memory P" "image_file P" "state_ok s" "s_backing_file s = Some f" "durable_command cmd"
    and "openflash_execute P cmd h s = Inr (OF_SC_SUCCESS, r, h', s')"
    and "s_capacity s2 = s_capacity s" "s_backing_file s2 = Some f"
    and "\<not> fst (msix_init_exclusive_bar P h' OF_MAX_QUEUES)"
  shows "\<exists>h2 s3. openflash_realize P h' (openflash_exit s2) = (None, h2, s3) \<and> s_storage s3 = s_storage s'"
proof -
  have d: "g_file_test P h' f" "g_file_get_contents P h' f = s_storage s'" "media_ok s'" "s_capacity s' = s_capacity s"
    using durable_file [OF assms(1-6)] by auto
  then have i: "initial_image P h' (openflash_exit s2) = s_storage s'"
    using assms(8) by (simp add: initial_image_def openflash_exit_def)
  obtain st where st: "s_storage s' = Some st" "length st = unat (s_capacity s)" using d(3,4) by (auto simp: media_ok_def)
  have c: "\<not> s_capacity (openflash_exit s2) < OF_BLOCK_SIZE" "s_capacity (openflash_exit s2) mod OF_BLOCK_SIZE = 0"
    using d(3,4) assms(7)
    by (simp_all add: media_ok_def openflash_exit_def OF_BLOCK_SIZE_def word_less_nat_alt word_unat_eq_iff unat_mod)
  note r = realize_eq [OF c, of P h', unfolded i]
  show ?thesis
    unfolding r using assms(7,9) st
    by (cases "msix_init_exclusive_bar P h' OF_MAX_QUEUES") (simp add: openflash_exit_def openflash_reset_eq)
qed

theorem power_cycle_keeps_medium_witness:
  "\<exists>h1 h2 s3. openflash_execute ram_platform (io_command OF_OP_FLUSH 0 0 0 0) blank_host blank_device =
      Inr (OF_SC_SUCCESS, 0, h1, blank_device) \<and>
    openflash_realize ram_platform h1 (openflash_exit (ring_device 4)) = (None, h2, s3) \<and>
    s_storage s3 = s_storage blank_device"
proof -
  let ?h = "blank_host\<lparr>h_files := (h_files blank_host)(''openflash.img'' := Some (replicate 8192 0))\<rparr>"
  have x: "openflash_execute ram_platform (io_command OF_OP_FLUSH 0 0 0 0) blank_host blank_device =
     Inr (OF_SC_SUCCESS, 0, ?h, blank_device)"
    by (simp add: openflash_execute_def of_opcodes openflash_persist_def buf_load_def chunk_def)
  have "\<exists>h2 s3. openflash_realize ram_platform ?h (openflash_exit (ring_device 4)) = (None, h2, s3) \<and>
      s_storage s3 = s_storage blank_device"
    by (rule power_cycle_keeps_medium [OF ram.guest_memory_axioms ram_file.image_file_axioms blank_device_ok(1) _ _ x])
      (simp_all add: durable_command_def ring_device_def)
  then show ?thesis using x by metis
qed

end
