(* ===== verification/Kernel.thy ===== *)
theory Kernel
  imports Abi "HOL-Library.Monad_Syntax"
begin

text \<open>
  What the Linux driver sees of the machine.  A \<open>world\<close> is system memory, the device behind BAR0
  and the sequence of kernel calls made so far.  Neither the kernel nor the hardware is code of this
  repository: the record \<open>env\<close> holds what the device does on an access and what the kernel
  answers to the calls that can fail, each as an arbitrary function of the history; a call that failed
  is in the history as \<open>Failed\<close>.  Coherent DMA memory
  is identified by its bus address; the driver reaches it at that address, and so does the device.
  A register access that never completes makes the surrounding driver function \<open>None\<close>.
\<close>

section \<open>Requests and kernel calls\<close>

datatype dma_data_direction = DMA_TO_DEVICE | DMA_FROM_DEVICE

datatype blk_status = BLK_STS_OK | BLK_STS_NOTSUPP | BLK_STS_TIMEOUT | BLK_STS_TARGET | BLK_STS_MEDIUM
  | BLK_STS_IOERR | BLK_STS_RESOURCE

datatype req_op = REQ_OP_READ | REQ_OP_WRITE | REQ_OP_FLUSH | REQ_OP_DISCARD | REQ_OP_OTHER nat

record bio_vec =
  bv_addr :: u64
  bv_len :: u32

text \<open>The members of \<^verbatim>\<open>struct request\<close> the driver reads.  \<open>rq_segments\<close> are the pieces
  \<^verbatim>\<open>rq_for_each_segment\<close> visits, \<open>rq_nr_phys_segments\<close> is the counter the block layer keeps;
  the two are different members of the request.\<close>

record request =
  rq_tag :: nat
  rq_op :: req_op
  rq_fua :: bool
  rq_pos :: u64
  rq_bytes :: u32
  rq_nr_phys_segments :: nat
  rq_segments :: "bio_vec list"

datatype kcall =
    Writel u64 u32
  | Dma_alloc u64 nat
  | Dma_free u64 nat
  | Dma_map bio_vec u64 dma_data_direction
  | Dma_unmap u64 u32 dma_data_direction
  | Kcalloc nat
  | Alloc_irq_vectors
  | Free_irq_vectors
  | Request_irq nat
  | Free_irq nat
  | Synchronize_irq nat
  | Mutex_lock
  | Mutex_unlock
  | Spin_lock
  | Spin_unlock
  | Start_request request
  | End_request request blk_status
  | Freeze_queue
  | Unfreeze_queue
  | Schedule_work
  | Cancel_work
  | Enable_device
  | Set_dma_mask
  | Map_regions
  | Set_master
  | Clear_master
  | Alloc_tag_set nat
  | Free_tag_set
  | Alloc_disk
  | Add_disk u64
  | Del_disk
  | Put_disk
  | Queue_limits u32 u32 nat bool bool
  | Failed kcall

section \<open>The world and its environment\<close>

record 'd world =
  w_mem :: mem
  w_dev :: 'd
  w_log :: "kcall list"

text \<open>
  \<open>bar_write\<close> is \<open>None\<close> when the access never completes.  A read may let the device act before
  it answers.  \<open>e_alloc\<close> and \<open>e_map\<close> answer \<open>None\<close> for an allocation or mapping
  failure, \<open>e_ret\<close> is the return code of the call that ends the history, \<open>e_irqs\<close> how
  many interrupts arrive while the driver waits, \<open>e_polls\<close> how often a register is polled before
  the timeout, \<open>e_frozen\<close> whether a wait for the request queue to drain ends, and
  \<open>e_garbage\<close> is the contents of an uninitialized local variable.
\<close>

record 'd env =
  bar_write :: "u64 \<Rightarrow> u64 \<Rightarrow> mem \<Rightarrow> 'd \<Rightarrow> (mem \<times> 'd) option"
  bar_read :: "u64 \<Rightarrow> mem \<Rightarrow> 'd \<Rightarrow> u64 \<times> mem \<times> 'd"
  e_alloc :: "kcall list \<Rightarrow> nat \<Rightarrow> u64 option"
  e_kcalloc :: "kcall list \<Rightarrow> bool"
  e_map :: "kcall list \<Rightarrow> bio_vec \<Rightarrow> u64 option"
  e_ret :: "kcall list \<Rightarrow> int"
  e_irqs :: "kcall list \<Rightarrow> nat"
  e_polls :: "kcall list \<Rightarrow> nat"
  e_frozen :: "kcall list \<Rightarrow> bool"
  e_garbage :: int

definition log :: "kcall \<Rightarrow> 'd world \<Rightarrow> 'd world" where
  "log c w = w\<lparr>w_log := w_log w @ [c]\<rparr>"

definition logs :: "kcall list \<Rightarrow> 'd world \<Rightarrow> 'd world" where
  "logs cs w = w\<lparr>w_log := w_log w @ cs\<rparr>"

definition writel :: "'d env \<Rightarrow> u32 \<Rightarrow> u64 \<Rightarrow> 'd world \<Rightarrow> 'd world option" where
  "writel E v addr w =
     (case bar_write E addr (ucast v) (w_mem w) (w_dev w) of
        None \<Rightarrow> None
      | Some (m, d) \<Rightarrow> Some (log (Writel addr v) (w\<lparr>w_mem := m, w_dev := d\<rparr>)))"

definition readq :: "'d env \<Rightarrow> u64 \<Rightarrow> 'd world \<Rightarrow> u64 \<times> 'd world" where
  "readq E addr w = (case bar_read E addr (w_mem w) (w_dev w) of
     (v, m, d) \<Rightarrow> (v, w\<lparr>w_mem := m, w_dev := d\<rparr>))"

definition readl :: "'d env \<Rightarrow> u64 \<Rightarrow> 'd world \<Rightarrow> u32 \<times> 'd world" where
  "readl E addr w = (case readq E addr w of (v, w') \<Rightarrow> (ucast v, w'))"

text \<open>\<^verbatim>\<open>readl_poll_timeout\<close>: read until a bit is set, for the last time after the timeout.\<close>

fun poll :: "'d env \<Rightarrow> u64 \<Rightarrow> u32 \<Rightarrow> nat \<Rightarrow> 'd world \<Rightarrow> bool \<times> 'd world" where
  "poll E addr bits n w = (case readl E addr w of (v, w') \<Rightarrow>
     if v AND bits \<noteq> 0 then (True, w')
     else (case n of 0 \<Rightarrow> (False, w') | Suc k \<Rightarrow> poll E addr bits k w'))"

declare poll.simps [simp del]

definition readl_poll_timeout :: "'d env \<Rightarrow> u64 \<Rightarrow> u32 \<Rightarrow> 'd world \<Rightarrow> bool \<times> 'd world" where
  "readl_poll_timeout E addr bits w = poll E addr bits (e_polls E (w_log w)) w"

text \<open>\<^verbatim>\<open>dma_alloc_coherent\<close> returns zeroed memory.\<close>

definition dma_alloc_coherent :: "'d env \<Rightarrow> nat \<Rightarrow> 'd world \<Rightarrow> u64 option \<times> 'd world" where
  "dma_alloc_coherent E n w = (case e_alloc E (w_log w) n of
     None \<Rightarrow> (None, w)
   | Some a \<Rightarrow> (Some a, log (Dma_alloc a n) (w\<lparr>w_mem := mem_store (w_mem w) a (replicate n 0)\<rparr>)))"

text \<open>A kernel call with a return code.  \<^verbatim>\<open>pci_alloc_irq_vectors\<close> returns the number of vectors or a
  negative error, the other calls 0 or an error.\<close>

definition call_failed :: "kcall \<Rightarrow> int \<Rightarrow> bool" where
  "call_failed c ret = (if c = Alloc_irq_vectors then ret < 0 else ret \<noteq> 0)"

definition kernel_call :: "'d env \<Rightarrow> kcall \<Rightarrow> 'd world \<Rightarrow> int \<times> 'd world" where
  "kernel_call E c w = (let ret = e_ret E (w_log w @ [c]) in
     (ret, log (if call_failed c ret then Failed c else c) w))"

section \<open>Error numbers\<close>

definition EIO :: int where "EIO = 5"
definition ENOMEM :: int where "ENOMEM = 12"
definition ENODEV :: int where "ENODEV = 19"
definition EPROTO :: int where "EPROTO = 71"
definition ETIMEDOUT :: int where "ETIMEDOUT = 110"

lemmas errno_simps = EIO_def ENOMEM_def ENODEV_def EPROTO_def ETIMEDOUT_def

section \<open>Facts\<close>

lemma log_simps [simp]:
  "w_mem (log c w) = w_mem w" "w_dev (log c w) = w_dev w" "w_log (log c w) = w_log w @ [c]"
  "w_mem (logs cs w) = w_mem w" "w_dev (logs cs w) = w_dev w" "w_log (logs cs w) = w_log w @ cs"
  by (simp_all add: log_def logs_def)

lemma read_log [simp]:
  "readq E addr w = (v, w') \<Longrightarrow> w_log w' = w_log w"
  "readl E addr w = (v4, w') \<Longrightarrow> w_log w' = w_log w"
  by (auto simp: readl_def readq_def split: prod.splits)

lemma poll_log: "poll E addr bits n w = (ok, w') \<Longrightarrow> w_log w' = w_log w"
proof (induction E addr bits n w arbitrary: ok w' rule: poll.induct)
  case (1 E addr bits n w)
  from 1(2) show ?case
    unfolding poll.simps [of E addr bits n w] using 1(1) by (auto split: prod.splits if_splits nat.splits)
qed

lemma writel_log: "writel E v addr w = Some w' \<Longrightarrow> w_log w' = w_log w @ [Writel addr v]"
  by (auto simp: writel_def split: option.splits)

lemma dma_alloc_log:
  "dma_alloc_coherent E n w = (Some a, w') \<Longrightarrow> w_log w' = w_log w @ [Dma_alloc a n]"
  "dma_alloc_coherent E n w = (None, w') \<Longrightarrow> w' = w"
  by (auto simp: dma_alloc_coherent_def split: option.splits)

lemma kernel_call_log: "kernel_call E c w = (r, w') \<Longrightarrow> w' = log (if call_failed c r then Failed c else c) w"
  by (auto simp: kernel_call_def Let_def)

section \<open>Accounting of kernel resources\<close>

text \<open>The net effect of a history on a resource is the sum of a weight over its calls.\<close>

definition tally :: "(kcall \<Rightarrow> int) \<Rightarrow> kcall list \<Rightarrow> int" where
  "tally f cs = sum_list (map f cs)"

lemma tally_simps [simp]:
  "tally f [] = 0" "tally f (c # cs) = f c + tally f cs" "tally f (cs @ ds) = tally f cs + tally f ds"
  by (simp_all add: tally_def)

lemma tally_rev [simp]: "tally f (rev cs) = tally f cs"
  by (induction cs) simp_all

definition alloc_weight :: "u64 \<Rightarrow> nat \<Rightarrow> kcall \<Rightarrow> int" where
  "alloc_weight a n c = (if c = Dma_alloc a n then 1 else if c = Dma_free a n then -1 else 0)"

definition map_weight :: "u64 \<Rightarrow> u32 \<Rightarrow> dma_data_direction \<Rightarrow> kcall \<Rightarrow> int" where
  "map_weight a n dir c = (case c of
     Dma_map b dma d \<Rightarrow> if dma = a \<and> bv_len b = n \<and> d = dir then 1 else 0
   | Dma_unmap dma k d \<Rightarrow> if dma = a \<and> k = n \<and> d = dir then -1 else 0
   | _ \<Rightarrow> 0)"

definition irq_weight :: "nat \<Rightarrow> kcall \<Rightarrow> int" where
  "irq_weight v c = (if c = Request_irq v then 1 else if c = Free_irq v then -1 else 0)"

definition vectors_weight :: "kcall \<Rightarrow> int" where
  "vectors_weight c = (if c = Alloc_irq_vectors then 1 else if c = Free_irq_vectors then -1 else 0)"

definition lock_weight :: "kcall \<Rightarrow> int" where
  "lock_weight c = (if c = Spin_lock then 1 else if c = Spin_unlock then -1 else 0)"

definition mutex_weight :: "kcall \<Rightarrow> int" where
  "mutex_weight c = (if c = Mutex_lock then 1 else if c = Mutex_unlock then -1 else 0)"

definition start_weight :: "request \<Rightarrow> kcall \<Rightarrow> int" where
  "start_weight rq c = (case c of Start_request r \<Rightarrow> if r = rq then 1 else 0
     | End_request r st \<Rightarrow> if r = rq then -1 else 0 | _ \<Rightarrow> 0)"

lemmas weight_defs = alloc_weight_def map_weight_def irq_weight_def vectors_weight_def lock_weight_def
  mutex_weight_def

end
