(* ===== verification/Host_Queue.thy ===== *)
theory Host_Queue
  imports Kernel
begin

text \<open>
  The queue half of the Linux driver, \<^verbatim>\<open>src/driver/openflash/openflash_queue.c\<close>, with the structures of
  \<^verbatim>\<open>openflash.h\<close>: interrupt handlers that drain phase-tagged completion rings, admin commands, set-up,
  reset and tear-down of the admin and the I/O queue.  Handlers and process-context functions run one
  after the other; the locks they take are entries of the history.
\<close>

section \<open>Structures\<close>

definition OPENFLASH_MAX_QUEUES :: nat where "OPENFLASH_MAX_QUEUES = 64"
definition OPENFLASH_DEFAULT_Q_DEPTH :: u16 where "OPENFLASH_DEFAULT_Q_DEPTH = 128"
definition OPENFLASH_BLOCK_SIZE :: u32 where "OPENFLASH_BLOCK_SIZE = 4096"
definition OPENFLASH_SECTORS_PER_BLOCK :: u64 where
  "OPENFLASH_SECTORS_PER_BLOCK = ucast (drop_bit 9 OPENFLASH_BLOCK_SIZE)"

text \<open>Coherent buffers are named by their bus address, so the pointer members \<open>sgl\<close>, \<open>sq_cmds\<close>
  and \<open>cqes\<close> coincide with \<open>sgl_dma\<close>, \<open>sq_dma\<close> and \<open>cq_dma\<close>.  The
  completion \<open>admin_done\<close> is its counter.\<close>

record openflash_request =
  r_rq :: "request option"
  r_sgl_dma :: u64
  r_nr_mapped :: u16
  r_dma_dir :: dma_data_direction

record openflash_queue =
  hq_sq_dma :: u64
  hq_cq_dma :: u64
  hq_qid :: u16
  hq_depth :: u16
  hq_sq_tail :: u16
  hq_cq_head :: u16
  hq_cq_phase :: u8
  hq_next_cid :: u16
  hq_requests :: "openflash_request list"
  hq_admin_done :: nat
  hq_admin_cid :: u16
  hq_admin_status :: u16
  hq_admin_result :: u64
  hq_admin_error :: int
  hq_admin_pending :: bool

text \<open>\<open>fd_queues\<close> is empty while the pointer is null, and holds two queues after the allocation.\<close>

record openflash_dev =
  fd_queues :: "openflash_queue list"
  fd_nr_queues :: u16
  fd_queue_depth :: u16
  fd_capacity_blocks :: u64
  fd_capabilities :: u64
  fd_disk :: bool
  fd_reset_pending :: bool

definition zero_request :: openflash_request where
  "zero_request = \<lparr>r_rq = None, r_sgl_dma = 0, r_nr_mapped = 0, r_dma_dir = DMA_TO_DEVICE\<rparr>"

definition zero_hq :: openflash_queue where
  "zero_hq = \<lparr>hq_sq_dma = 0, hq_cq_dma = 0, hq_qid = 0, hq_depth = 0, hq_sq_tail = 0, hq_cq_head = 0,
     hq_cq_phase = 0, hq_next_cid = 0, hq_requests = [], hq_admin_done = 0, hq_admin_cid = 0,
     hq_admin_status = 0, hq_admin_result = 0, hq_admin_error = 0, hq_admin_pending = False\<rparr>"

abbreviation hq :: "openflash_dev \<Rightarrow> nat \<Rightarrow> openflash_queue" where
  "hq fd i \<equiv> fd_queues fd ! i"

definition set_hq :: "nat \<Rightarrow> openflash_queue \<Rightarrow> openflash_dev \<Rightarrow> openflash_dev" where
  "set_hq i q fd = fd\<lparr>fd_queues := (fd_queues fd)[i := q]\<rparr>"

section \<open>Completion rings\<close>

fun openflash_blk_status :: "u16 \<Rightarrow> blk_status" where
  "openflash_blk_status status =
     (if status = status_value OPENFLASH_SC_SUCCESS then BLK_STS_OK
      else if status = status_value OPENFLASH_SC_LBA_RANGE then BLK_STS_TARGET
      else if status = status_value OPENFLASH_SC_MEDIA_ERROR \<or>
              status = status_value OPENFLASH_SC_ECC_UNCORRECTABLE then BLK_STS_MEDIUM
      else if status = status_value OPENFLASH_SC_INVALID_OPCODE \<or>
              status = status_value OPENFLASH_SC_INVALID_FIELD then BLK_STS_NOTSUPP
      else BLK_STS_IOERR)"

text \<open>\<^verbatim>\<open>(index + 1) % queue->depth\<close>\<close>

definition next_index :: "u16 \<Rightarrow> u16 \<Rightarrow> u16" where
  "next_index i depth = ucast ((ucast i + 1 :: u32) mod ucast depth)"

definition cq_entry :: "mem \<Rightarrow> openflash_queue \<Rightarrow> openflash_completion" where
  "cq_entry m q = dec_completion (mem_load m (hq_cq_dma q + ucast (hq_cq_head q) * 64) 64)"

definition cq_ready :: "mem \<Rightarrow> openflash_queue \<Rightarrow> bool" where
  "cq_ready m q \<longleftrightarrow> oe_flags (cq_entry m q) AND OPENFLASH_CQE_PHASE = ucast (hq_cq_phase q)"

definition advance_cq :: "openflash_queue \<Rightarrow> openflash_queue" where
  "advance_cq q = (let h = next_index (hq_cq_head q) (hq_depth q) in
     q\<lparr>hq_cq_head := h,
       hq_cq_phase := (if h = 0 then hq_cq_phase q XOR ucast OPENFLASH_CQE_PHASE else hq_cq_phase q)\<rparr>)"

subsection \<open>The admin queue\<close>

definition admin_complete :: "openflash_completion \<Rightarrow> openflash_queue \<Rightarrow> openflash_queue" where
  "admin_complete cqe q =
     (if hq_admin_pending q then
        (if oe_cid cqe = hq_admin_cid q
         then q\<lparr>hq_admin_status := oe_status cqe, hq_admin_result := oe_result cqe, hq_admin_error := 0\<rparr>
         else q\<lparr>hq_admin_error := - EIO\<rparr>)\<lparr>hq_admin_pending := False, hq_admin_done := hq_admin_done q + 1\<rparr>
      else q)"

partial_function (option) drain_admin_loop ::
  "mem \<Rightarrow> openflash_queue \<Rightarrow> nat \<Rightarrow> (openflash_queue \<times> nat) option"
where
  "drain_admin_loop m q completed =
     (if \<not> cq_ready m q then Some (q, completed)
      else drain_admin_loop m (advance_cq (admin_complete (cq_entry m q) q)) (completed + 1))"

definition openflash_drain_admin_cq ::
  "'d env \<Rightarrow> openflash_dev \<Rightarrow> 'd world \<Rightarrow> (nat \<times> openflash_dev \<times> 'd world) option"
where
  "openflash_drain_admin_cq E fd w = do {
     (q, completed) \<leftarrow> drain_admin_loop (w_mem w) (hq fd 0) 0;
     if completed \<noteq> 0 then do {
       w1 \<leftarrow> writel E (ucast (hq_cq_head q)) (OPENFLASH_CQ_HEAD_DB (hq_qid q)) w;
       Some (completed, set_hq 0 q fd, w1)
     } else Some (completed, set_hq 0 q fd, w)
   }"

datatype irqreturn = IRQ_NONE | IRQ_HANDLED

definition openflash_irq ::
  "'d env \<Rightarrow> openflash_dev \<Rightarrow> 'd world \<Rightarrow> (irqreturn \<times> openflash_dev \<times> 'd world) option"
where
  "openflash_irq E fd w = (case readl E OPENFLASH_REG_STATUS w of (status, w1) \<Rightarrow>
     if status AND OPENFLASH_STATUS_READY = 0 then Some (IRQ_NONE, fd, w1)
     else do {
       (completed, fd2, w2) \<leftarrow> openflash_drain_admin_cq E fd w1;
       Some (if completed \<noteq> 0 then IRQ_HANDLED else IRQ_NONE, fd2, w2)
     })"

subsection \<open>The I/O queue\<close>

definition sgl_entry :: "mem \<Rightarrow> u64 \<Rightarrow> nat \<Rightarrow> openflash_sgl_desc" where
  "sgl_entry m base i = dec_sgl_desc (mem_load m (base + of_nat i * 16) 16)"

text \<open>The loop that unmaps the pages of a payload list, last entry first.\<close>

fun unmap_calls :: "mem \<Rightarrow> u64 \<Rightarrow> dma_data_direction \<Rightarrow> nat \<Rightarrow> kcall list" where
  "unmap_calls m base dir 0 = []"
| "unmap_calls m base dir (Suc n) =
     Dma_unmap (od_addr (sgl_entry m base n)) (od_length (sgl_entry m base n)) dir # unmap_calls m base dir n"

text \<open>\<^verbatim>\<open>xchg (&request->rq, NULL)\<close>, and, if there was a request, unmap its pages and end it.\<close>

definition finish_request ::
  "mem \<Rightarrow> blk_status \<Rightarrow> openflash_request \<Rightarrow> openflash_request \<times> kcall list"
where
  "finish_request m status r = (case r_rq r of
     None \<Rightarrow> (r, [])
   | Some rq \<Rightarrow> (r\<lparr>r_rq := None, r_nr_mapped := 0\<rparr>,
       unmap_calls m (r_sgl_dma r) (r_dma_dir r) (unat (r_nr_mapped r)) @ [End_request rq status]))"

definition io_complete :: "mem \<Rightarrow> openflash_completion \<Rightarrow> openflash_queue \<Rightarrow> openflash_queue \<times> kcall list" where
  "io_complete m cqe q =
     (let cid = oe_cid cqe in
      if cid = 0 \<or> int (unat cid) > int (unat (hq_depth q)) - 1 then (q, [])
      else (case finish_request m (openflash_blk_status (oe_status cqe)) (hq_requests q ! (unat cid - 1)) of
        (r, calls) \<Rightarrow> (q\<lparr>hq_requests := (hq_requests q)[unat cid - 1 := r]\<rparr>, calls)))"

partial_function (option) io_irq_loop ::
  "mem \<Rightarrow> openflash_queue \<Rightarrow> kcall list \<Rightarrow> nat \<Rightarrow> (openflash_queue \<times> kcall list \<times> nat) option"
where
  "io_irq_loop m q calls completed =
     (if \<not> cq_ready m q then Some (q, calls, completed)
      else (case io_complete m (cq_entry m q) q of (q1, cs) \<Rightarrow>
        io_irq_loop m (advance_cq q1) (calls @ cs) (completed + 1)))"

definition openflash_io_irq ::
  "'d env \<Rightarrow> openflash_dev \<Rightarrow> 'd world \<Rightarrow> (irqreturn \<times> openflash_dev \<times> 'd world) option"
where
  "openflash_io_irq E fd w = do {
     (q, calls, completed) \<leftarrow> io_irq_loop (w_mem w) (hq fd 1) [] 0;
     if completed = 0 then Some (IRQ_NONE, set_hq 1 q fd, logs calls w)
     else do {
       w1 \<leftarrow> writel E (ucast (hq_cq_head q)) (OPENFLASH_CQ_HEAD_DB (hq_qid q)) (logs calls w);
       Some (IRQ_HANDLED, set_hq 1 q fd, w1)
     }
   }"

section \<open>Admin commands\<close>

text \<open>\<^verbatim>\<open>lower_32_bits\<close> and \<^verbatim>\<open>upper_32_bits\<close>\<close>

abbreviation lower_32_bits :: "u64 \<Rightarrow> u32" where "lower_32_bits a \<equiv> ucast a"
abbreviation upper_32_bits :: "u64 \<Rightarrow> u32" where "upper_32_bits a \<equiv> ucast (drop_bit 32 a)"

text \<open>The register sequence that hands the admin rings to the controller and waits for ready; set-up and
  reset contain it word for word.  \<open>True\<close> means ready before the timeout.\<close>

definition start_controller :: "'d env \<Rightarrow> openflash_queue \<Rightarrow> 'd world \<Rightarrow> (bool \<times> 'd world) option" where
  "start_controller E q w = do {
     w \<leftarrow> writel E (lower_32_bits (hq_sq_dma q)) OPENFLASH_REG_ADMIN_SQ_LO w;
     w \<leftarrow> writel E (upper_32_bits (hq_sq_dma q)) OPENFLASH_REG_ADMIN_SQ_HI w;
     w \<leftarrow> writel E (lower_32_bits (hq_cq_dma q)) OPENFLASH_REG_ADMIN_CQ_LO w;
     w \<leftarrow> writel E (upper_32_bits (hq_cq_dma q)) OPENFLASH_REG_ADMIN_CQ_HI w;
     w \<leftarrow> writel E (ucast (hq_depth q)) OPENFLASH_REG_ADMIN_QSIZE w;
     w \<leftarrow> writel E OPENFLASH_CTRL_ENABLE OPENFLASH_REG_CONTROL w;
     Some (readl_poll_timeout E OPENFLASH_REG_STATUS OPENFLASH_STATUS_READY w)
   }"

definition openflash_setup_admin_queue ::
  "'d env \<Rightarrow> openflash_dev \<Rightarrow> 'd world \<Rightarrow> (int \<times> openflash_dev \<times> 'd world) option"
where
  "openflash_setup_admin_queue E fd w =
     (if \<not> e_kcalloc E (w_log w) then Some (- ENOMEM, fd\<lparr>fd_queues := []\<rparr>, w)
      else
        let q = zero_hq\<lparr>hq_qid := 0, hq_depth := fd_queue_depth fd, hq_cq_phase := 1, hq_admin_done := 0\<rparr>;
            fd = fd\<lparr>fd_queues := [q, zero_hq]\<rparr>;
            sq_size = unat (hq_depth q) * 64;
            cq_size = unat (hq_depth q) * 64
        in case dma_alloc_coherent E sq_size (log (Kcalloc 2) w) of
          (None, w) \<Rightarrow> Some (- ENOMEM, fd, w)
        | (Some sq, w) \<Rightarrow> (case dma_alloc_coherent E cq_size w of
            (None, w) \<Rightarrow> Some (- ENOMEM, set_hq 0 (q\<lparr>hq_sq_dma := sq\<rparr>) fd, log (Dma_free sq sq_size) w)
          | (Some cq, w) \<Rightarrow>
              let q = q\<lparr>hq_sq_dma := sq, hq_cq_dma := cq\<rparr>;
                  fd = set_hq 0 q fd;
                  free_rings = [Dma_free cq cq_size, Dma_free sq sq_size]
              in case kernel_call E Alloc_irq_vectors w of (ret, w) \<Rightarrow>
                if ret < 0 then Some (ret, fd, logs free_rings w)
                else (case kernel_call E (Request_irq 0) w of (ret, w) \<Rightarrow>
                  if ret \<noteq> 0 then Some (ret, fd, logs (Free_irq_vectors # free_rings) w)
                  else do {
                    (ready, w) \<leftarrow> start_controller E q w;
                    if ready then Some (0, fd\<lparr>fd_nr_queues := 1\<rparr>, w)
                    else do {
                      w \<leftarrow> writel E 0 OPENFLASH_REG_CONTROL w;
                      Some (- ETIMEDOUT, fd\<lparr>fd_nr_queues := 0\<rparr>,
                        logs (Free_irq 0 # Free_irq_vectors # free_rings) w)
                    }
                  })))"

text \<open>While the driver sleeps, interrupts run the handler; the wait succeeds when the completion has been
  signalled by then.\<close>

fun take_irqs :: "'d env \<Rightarrow> nat \<Rightarrow> openflash_dev \<Rightarrow> 'd world \<Rightarrow> (openflash_dev \<times> 'd world) option" where
  "take_irqs E 0 fd w = Some (fd, w)"
| "take_irqs E (Suc n) fd w = do {
     (_, fd, w) \<leftarrow> openflash_irq E fd w;
     take_irqs E n fd w
   }"

definition wait_for_completion_timeout ::
  "'d env \<Rightarrow> openflash_dev \<Rightarrow> 'd world \<Rightarrow> (bool \<times> openflash_dev \<times> 'd world) option"
where
  "wait_for_completion_timeout E fd w = do {
     (fd, w) \<leftarrow> take_irqs E (e_irqs E (w_log w)) fd w;
     let q = hq fd 0;
     if hq_admin_done q = 0 then Some (False, fd, w)
     else Some (True, set_hq 0 (q\<lparr>hq_admin_done := hq_admin_done q - 1\<rparr>) fd, w)
   }"

definition issue_cid :: "openflash_queue \<Rightarrow> openflash_queue \<times> u16" where
  "issue_cid q =
     (let q1 = q\<lparr>hq_next_cid := hq_next_cid q + 1\<rparr> in
      if hq_next_cid q1 = 0 then (q1\<lparr>hq_next_cid := hq_next_cid q1 + 1\<rparr>, hq_next_cid q1 + 1)
      else (q1, hq_next_cid q1))"

text \<open>Up to the doorbell: number the command, mark it pending and write it into the slot at the tail.\<close>

definition post_admin :: "openflash_command \<Rightarrow> openflash_dev \<Rightarrow> 'd world \<Rightarrow> openflash_dev \<times> 'd world" where
  "post_admin cmd fd w =
     (let w = log Mutex_lock w;
          sq_slot = hq_sq_tail (hq fd 0);
          (q, cid) = issue_cid (hq fd 0);
          cmd = cmd\<lparr>oc_qid := hq_qid q, oc_cid := cid\<rparr>;
          q = q\<lparr>hq_admin_done := 0, hq_admin_cid := cid, hq_admin_error := 0, hq_admin_pending := True\<rparr>;
          w = w\<lparr>w_mem := mem_store (w_mem w) (hq_sq_dma q + ucast sq_slot * 64) (enc_command cmd)\<rparr>;
          q = q\<lparr>hq_sq_tail := next_index (hq_sq_tail q) (hq_depth q)\<rparr>
      in (set_hq 0 q fd, w))"

text \<open>From the end of the wait on.\<close>

definition admin_outcome ::
  "bool \<Rightarrow> openflash_dev \<Rightarrow> 'd world \<Rightarrow> int \<times> u64 option \<times> openflash_dev \<times> 'd world"
where
  "admin_outcome woken fd w =
     (let q = hq fd 0 in
      if \<not> woken then
        (- ETIMEDOUT, None, set_hq 0 (q\<lparr>hq_admin_pending := False\<rparr>) fd, logs [Synchronize_irq 0, Mutex_unlock] w)
      else if hq_admin_error q \<noteq> 0 then (hq_admin_error q, None, fd, log Mutex_unlock w)
      else if hq_admin_status q \<noteq> status_value OPENFLASH_SC_SUCCESS then (- EIO, None, fd, log Mutex_unlock w)
      else (0, Some (hq_admin_result q), fd, log Mutex_unlock w))"

definition openflash_admin_command ::
  "'d env \<Rightarrow> openflash_command \<Rightarrow> openflash_dev \<Rightarrow> 'd world
    \<Rightarrow> (int \<times> u64 option \<times> openflash_dev \<times> 'd world) option"
where
  "openflash_admin_command E cmd fd w = (case post_admin cmd fd w of (fd, w) \<Rightarrow> do {
     w \<leftarrow> writel E (ucast (hq_sq_tail (hq fd 0))) (OPENFLASH_SQ_TAIL_DB (hq_qid (hq fd 0))) w;
     (woken, fd, w) \<leftarrow> wait_for_completion_timeout E fd w;
     Some (admin_outcome woken fd w)
   })"

definition openflash_admin_identify ::
  "'d env \<Rightarrow> openflash_dev \<Rightarrow> 'd world \<Rightarrow> (int \<times> openflash_dev \<times> 'd world) option"
where
  "openflash_admin_identify E fd w = do {
     (ret, result, fd, w) \<leftarrow> openflash_admin_command E
       (zero_command\<lparr>oc_opcode := opcode_value OPENFLASH_ADMIN_IDENTIFY\<rparr>) fd w;
     if ret \<noteq> 0 then Some (ret, fd, w)
     else if result = Some 0 then Some (- ENODEV, fd, w)
     else Some (0, fd\<lparr>fd_capacity_blocks := the result\<rparr>, w)
   }"

definition openflash_create_io_queue ::
  "'d env \<Rightarrow> openflash_dev \<Rightarrow> 'd world \<Rightarrow> (int \<times> openflash_dev \<times> 'd world) option"
where
  "openflash_create_io_queue E fd w =
     (let q = hq fd 1;
          cmd = zero_command\<lparr>oc_opcode := opcode_value OPENFLASH_ADMIN_CREATE_IOQ,
            oc_nblocks := ucast (hq_depth q), oc_control := OPENFLASH_CREATE_IOQ_CONTROL (hq_qid q) 1,
            oc_data_addr := hq_sq_dma q, oc_metadata_addr := hq_cq_dma q\<rparr>
      in do {
        (ret, result, fd, w) \<leftarrow> openflash_admin_command E cmd fd w;
        if ret \<noteq> 0 then Some (ret, fd, w)
        else Some (if result = Some (ucast (hq_qid (hq fd 1))) then 0 else - EPROTO, fd, w)
      })"

section \<open>The I/O queue\<close>

abbreviation sgl_table_size :: nat where
  "sgl_table_size \<equiv> OPENFLASH_MAX_SGL_ENTRIES * 16"

text \<open>One payload list per tag; on a failure the loop stops at the failing tag.\<close>

fun alloc_sgls ::
  "'d env \<Rightarrow> nat \<Rightarrow> nat \<Rightarrow> openflash_request list \<Rightarrow> 'd world \<Rightarrow> bool \<times> nat \<times> openflash_request list \<times> 'd world"
where
  "alloc_sgls E 0 tag rs w = (True, tag, rs, w)"
| "alloc_sgls E (Suc n) tag rs w = (case dma_alloc_coherent E sgl_table_size w of
     (None, w) \<Rightarrow> (False, tag, rs, w)
   | (Some a, w) \<Rightarrow> alloc_sgls E n (Suc tag) (rs[tag := (rs ! tag)\<lparr>r_sgl_dma := a\<rparr>]) w)"

text \<open>\<^verbatim>\<open>while (tag--)\<close>\<close>

definition free_sgls :: "openflash_request list \<Rightarrow> nat \<Rightarrow> kcall list" where
  "free_sgls rs tag = map (\<lambda>i. Dma_free (r_sgl_dma (rs ! i)) sgl_table_size) (rev [0..<tag])"

definition openflash_setup_io_queue ::
  "'d env \<Rightarrow> openflash_dev \<Rightarrow> 'd world \<Rightarrow> (int \<times> openflash_dev \<times> 'd world) option"
where
  "openflash_setup_io_queue E fd w =
     (let q = (hq fd 1)\<lparr>hq_qid := 1, hq_depth := fd_queue_depth fd, hq_cq_phase := 1\<rparr>;
          sq_size = unat (hq_depth q) * 64;
          cq_size = unat (hq_depth q) * 64
      in case dma_alloc_coherent E sq_size w of
        (None, w) \<Rightarrow> Some (- ENOMEM, set_hq 1 q fd, w)
      | (Some sq, w) \<Rightarrow> (case dma_alloc_coherent E cq_size w of
          (None, w) \<Rightarrow> Some (- ENOMEM, set_hq 1 (q\<lparr>hq_sq_dma := sq\<rparr>) fd, log (Dma_free sq sq_size) w)
        | (Some cq, w) \<Rightarrow>
            let q = q\<lparr>hq_sq_dma := sq, hq_cq_dma := cq\<rparr>;
                n = unat (hq_depth q) - 1;
                free_rings = [Dma_free cq cq_size, Dma_free sq sq_size]
            in if \<not> e_kcalloc E (w_log w)
              then Some (- ENOMEM, set_hq 1 (q\<lparr>hq_requests := []\<rparr>) fd, logs free_rings w)
              else (case alloc_sgls E n 0 (replicate n zero_request) (log (Kcalloc n) w) of
                (ok, tag, rs, w) \<Rightarrow>
                  let fd = set_hq 1 (q\<lparr>hq_requests := rs\<rparr>) fd in
                  if \<not> ok then Some (e_garbage E, fd, logs (free_sgls rs tag @ free_rings) w)
                  else (case kernel_call E (Request_irq 1) w of (ret, w) \<Rightarrow>
                    if ret \<noteq> 0 then Some (ret, fd, logs (free_sgls rs tag @ free_rings) w)
                    else do {
                      (ret, fd, w) \<leftarrow> openflash_create_io_queue E fd w;
                      if ret \<noteq> 0
                      then Some (ret, fd, logs (Free_irq 1 # free_sgls rs tag @ free_rings) w)
                      else Some (0, fd\<lparr>fd_nr_queues := 2\<rparr>, w)
                    }))))"

definition clear_ring :: "u64 \<Rightarrow> u16 \<Rightarrow> mem \<Rightarrow> mem" where
  "clear_ring a depth m = mem_store m a (replicate (unat depth * 64) 0)"

definition openflash_reset_controller ::
  "'d env \<Rightarrow> openflash_dev \<Rightarrow> 'd world \<Rightarrow> (int \<times> openflash_dev \<times> 'd world) option"
where
  "openflash_reset_controller E fd w =
     (let admin = hq fd 0; io = hq fd 1;
          m1 = clear_ring (hq_sq_dma admin) (hq_depth admin) (w_mem w);
          m2 = clear_ring (hq_cq_dma admin) (hq_depth admin) m1;
          m3 = clear_ring (hq_sq_dma io) (hq_depth io) m2;
          m4 = clear_ring (hq_cq_dma io) (hq_depth io) m3;
          admin = admin\<lparr>hq_sq_tail := 0, hq_cq_head := 0, hq_cq_phase := 1\<rparr>;
          io = io\<lparr>hq_sq_tail := 0, hq_cq_head := 0, hq_cq_phase := 1\<rparr>;
          fd = set_hq 1 io (set_hq 0 admin fd)
      in do {
        w \<leftarrow> writel E OPENFLASH_CTRL_RESET OPENFLASH_REG_CONTROL (w\<lparr>w_mem := m4\<rparr>);
        (ready, w) \<leftarrow> start_controller E admin (snd (readl E OPENFLASH_REG_STATUS w));
        if \<not> ready then Some (- ETIMEDOUT, fd, w)
        else openflash_create_io_queue E fd w
      })"

section \<open>Tear-down\<close>

definition openflash_teardown_io_queue :: "openflash_dev \<Rightarrow> 'd world \<Rightarrow> openflash_dev \<times> 'd world" where
  "openflash_teardown_io_queue fd w =
     (if fd_nr_queues fd < 2 then (fd, w)
      else let q = hq fd 1; size = unat (hq_depth q) * 64 in
        (fd\<lparr>fd_nr_queues := 1\<rparr>,
         logs (Free_irq 1 #
           map (\<lambda>i. Dma_free (r_sgl_dma (hq_requests q ! i)) sgl_table_size) [0..<unat (hq_depth q) - 1] @
           [Dma_free (hq_cq_dma q) size, Dma_free (hq_sq_dma q) size]) w))"

fun fail_loop :: "mem \<Rightarrow> blk_status \<Rightarrow> openflash_request list \<Rightarrow> openflash_request list \<times> kcall list" where
  "fail_loop m status [] = ([], [])"
| "fail_loop m status (r # rs) =
     (case finish_request m status r of (r, cs) \<Rightarrow>
      case fail_loop m status rs of (rs, ds) \<Rightarrow> (r # rs, cs @ ds))"

definition openflash_fail_io_requests ::
  "blk_status \<Rightarrow> openflash_dev \<Rightarrow> 'd world \<Rightarrow> openflash_dev \<times> 'd world"
where
  "openflash_fail_io_requests status fd w =
     (if fd_nr_queues fd < 2 then (fd, w)
      else let q = hq fd 1; n = unat (hq_depth q) - 1 in
        case fail_loop (w_mem w) status (take n (hq_requests q)) of (rs, calls) \<Rightarrow>
          (set_hq 1 (q\<lparr>hq_requests := rs @ drop n (hq_requests q)\<rparr>) fd,
           logs (Synchronize_irq 1 # calls) w))"

definition openflash_teardown_admin_queue ::
  "'d env \<Rightarrow> openflash_dev \<Rightarrow> 'd world \<Rightarrow> (openflash_dev \<times> 'd world) option"
where
  "openflash_teardown_admin_queue E fd w =
     (if fd_queues fd = [] then Some (fd, w)
      else let q = hq fd 0; size = unat (hq_depth q) * 64 in do {
        w \<leftarrow> writel E 0 OPENFLASH_REG_CONTROL w;
        Some (fd\<lparr>fd_nr_queues := 0\<rparr>,
          logs [Free_irq 0, Free_irq_vectors, Dma_free (hq_cq_dma q) size, Dma_free (hq_sq_dma q) size]
            (snd (readl E OPENFLASH_REG_STATUS w)))
      })"

end
