(* ===== verification/Host_Block.thy ===== *)
theory Host_Block
  imports Host_Queue
begin

text \<open>
  The block-layer half of the Linux driver, \<^verbatim>\<open>src/driver/openflash/openflash_core.c\<close>: request submission,
  timeouts and recovery, disk registration, probe and remove.
\<close>

section \<open>Submission\<close>

text \<open>The \<^verbatim>\<open>rq_for_each_segment\<close> loop: map a segment and write its descriptor into the payload list of the
  tag.  The result says whether every segment was mapped, and how many were.\<close>

fun map_segments ::
  "'d env \<Rightarrow> dma_data_direction \<Rightarrow> u64 \<Rightarrow> bio_vec list \<Rightarrow> u16 \<Rightarrow> 'd world \<Rightarrow> bool \<times> u16 \<times> 'd world"
where
  "map_segments E dir sgl [] mapped w = (True, mapped, w)"
| "map_segments E dir sgl (bvec # bvecs) mapped w =
     (case e_map E (w_log w) bvec of
        None \<Rightarrow> (False, mapped, w)
      | Some dma \<Rightarrow> map_segments E dir sgl bvecs (mapped + 1)
          (log (Dma_map bvec dma dir) (w\<lparr>w_mem := mem_store (w_mem w) (sgl + ucast mapped * 16)
            (enc_sgl_desc \<lparr>od_addr = dma, od_length = bv_len bvec, od_reserved = 0\<rparr>)\<rparr>)))"

text \<open>The command in the submission slot: the members every request sets, then the flags and the payload list.
  The flags are assigned twice.\<close>

definition base_command :: "openflash_queue \<Rightarrow> request \<Rightarrow> openflash_opcode \<Rightarrow> openflash_command" where
  "base_command q rq opcode = zero_command\<lparr>oc_opcode := opcode_value opcode, oc_qid := hq_qid q,
     oc_cid := of_nat (rq_tag rq) + 1, oc_lba := rq_pos rq div OPENFLASH_SECTORS_PER_BLOCK,
     oc_nblocks := rq_bytes rq div OPENFLASH_BLOCK_SIZE\<rparr>"

definition rq_command :: "openflash_queue \<Rightarrow> request \<Rightarrow> openflash_opcode \<Rightarrow> u16 \<Rightarrow> u64 \<Rightarrow> openflash_command" where
  "rq_command q rq opcode mapped sgl =
     (let cmd = base_command q rq opcode;
          cmd = (if rq_fua rq then cmd\<lparr>oc_flags := oc_flags cmd OR OPENFLASH_CMD_F_FUA\<rparr> else cmd)
      in if mapped \<noteq> 0
         then cmd\<lparr>oc_flags := OPENFLASH_CMD_F_SGL, oc_control := ucast mapped, oc_data_addr := sgl\<rparr>
         else cmd)"

definition rq_entry :: "request \<Rightarrow> dma_data_direction \<Rightarrow> u16 \<Rightarrow> openflash_request \<Rightarrow> openflash_request" where
  "rq_entry rq dir mapped request =
     (if mapped \<noteq> 0 then request\<lparr>r_nr_mapped := mapped, r_dma_dir := dir\<rparr>
      else request\<lparr>r_nr_mapped := 0\<rparr>)\<lparr>r_rq := Some rq\<rparr>"

text \<open>From the label \<^verbatim>\<open>submit\<close> on.  \<open>dir\<close> is only looked at when pages were mapped.\<close>

definition submit_request ::
  "'d env \<Rightarrow> request \<Rightarrow> openflash_opcode \<Rightarrow> dma_data_direction \<Rightarrow> u16 \<Rightarrow> openflash_dev \<Rightarrow> 'd world
    \<Rightarrow> (blk_status \<times> openflash_dev \<times> 'd world) option"
where
  "submit_request E rq opcode dir mapped fd w =
     (let q = hq fd 1;
          request = hq_requests q ! rq_tag rq;
          w = log Spin_lock w;
          slot = hq_sq_dma q + ucast (hq_sq_tail q) * 64;
          unmap = (\<lambda>m. unmap_calls m (r_sgl_dma request) dir (unat mapped))
      in if r_rq request \<noteq> None
      then Some (BLK_STS_RESOURCE, fd, logs (Spin_unlock # unmap (w_mem w)) w)
      else if rq_fua rq \<and> fd_capabilities fd AND OPENFLASH_CAP_FUA = 0
      then let w = w\<lparr>w_mem := mem_store (w_mem w) slot (enc_command (base_command q rq opcode))\<rparr> in
        Some (BLK_STS_NOTSUPP, fd, logs (Spin_unlock # unmap (w_mem w)) w)
      else
        let w = w\<lparr>w_mem := mem_store (w_mem w) slot
              (enc_command (rq_command q rq opcode mapped (r_sgl_dma request)))\<rparr>;
            q = q\<lparr>hq_requests := (hq_requests q)[rq_tag rq := rq_entry rq dir mapped request],
              hq_sq_tail := next_index (hq_sq_tail q) (hq_depth q)\<rparr>
        in do {
          w \<leftarrow> writel E (ucast (hq_sq_tail q)) (OPENFLASH_SQ_TAIL_DB (hq_qid q)) (log (Start_request rq) w);
          Some (BLK_STS_OK, set_hq 1 q fd, log Spin_unlock w)
        })"

definition submit_data ::
  "'d env \<Rightarrow> request \<Rightarrow> openflash_opcode \<Rightarrow> dma_data_direction \<Rightarrow> openflash_dev \<Rightarrow> 'd world
    \<Rightarrow> (blk_status \<times> openflash_dev \<times> 'd world) option"
where
  "submit_data E rq opcode dir fd w =
     (let request = hq_requests (hq fd 1) ! rq_tag rq in
      if rq_bytes rq = 0 \<or> rq_nr_phys_segments rq > OPENFLASH_MAX_SGL_ENTRIES then Some (BLK_STS_IOERR, fd, w)
      else (case map_segments E dir (r_sgl_dma request) (rq_segments rq) 0 w of (ok, mapped, w) \<Rightarrow>
        if \<not> ok
        then Some (BLK_STS_RESOURCE, fd, logs (unmap_calls (w_mem w) (r_sgl_dma request) dir (unat mapped)) w)
        else submit_request E rq opcode dir mapped fd w))"

definition openflash_queue_rq ::
  "'d env \<Rightarrow> request \<Rightarrow> openflash_dev \<Rightarrow> 'd world \<Rightarrow> (blk_status \<times> openflash_dev \<times> 'd world) option"
where
  "openflash_queue_rq E rq fd w =
     (let cid = (of_nat (rq_tag rq) + 1 :: u16) in
      if rq_pos rq mod OPENFLASH_SECTORS_PER_BLOCK \<noteq> 0 \<or> rq_bytes rq mod OPENFLASH_BLOCK_SIZE \<noteq> 0 \<or>
         cid \<ge> hq_depth (hq fd 1) then Some (BLK_STS_IOERR, fd, w)
      else if rq_fua rq \<and> rq_op rq \<noteq> REQ_OP_WRITE then Some (BLK_STS_NOTSUPP, fd, w)
      else (case rq_op rq of
        REQ_OP_READ \<Rightarrow> submit_data E rq OPENFLASH_OP_READ DMA_FROM_DEVICE fd w
      | REQ_OP_WRITE \<Rightarrow> submit_data E rq OPENFLASH_OP_WRITE DMA_TO_DEVICE fd w
      | REQ_OP_FLUSH \<Rightarrow> submit_request E rq OPENFLASH_OP_FLUSH DMA_TO_DEVICE 0 fd w
      | REQ_OP_DISCARD \<Rightarrow> submit_request E rq OPENFLASH_OP_DISCARD DMA_TO_DEVICE 0 fd w
      | REQ_OP_OTHER _ \<Rightarrow> Some (BLK_STS_NOTSUPP, fd, w)))"

section \<open>Timeouts and recovery\<close>

text \<open>\<^verbatim>\<open>blk_mq_freeze_queue\<close> waits until no request is in flight; interrupts are taken meanwhile.  If the
  queue never drains, the call never returns.\<close>

fun take_io_irqs :: "'d env \<Rightarrow> nat \<Rightarrow> openflash_dev \<Rightarrow> 'd world \<Rightarrow> (openflash_dev \<times> 'd world) option" where
  "take_io_irqs E 0 fd w = Some (fd, w)"
| "take_io_irqs E (Suc n) fd w = do {
     (_, fd, w) \<leftarrow> openflash_io_irq E fd w;
     take_io_irqs E n fd w
   }"

definition blk_mq_freeze_queue :: "'d env \<Rightarrow> openflash_dev \<Rightarrow> 'd world \<Rightarrow> (openflash_dev \<times> 'd world) option" where
  "blk_mq_freeze_queue E fd w = do {
     (fd, w) \<leftarrow> take_io_irqs E (e_irqs E (w_log w)) fd w;
     if e_frozen E (w_log w) then Some (fd, log Freeze_queue w) else None
   }"

definition openflash_reset_work ::
  "'d env \<Rightarrow> openflash_dev \<Rightarrow> 'd world \<Rightarrow> (openflash_dev \<times> 'd world) option"
where
  "openflash_reset_work E fd w =
     (if \<not> fd_disk fd then Some (fd\<lparr>fd_reset_pending := False\<rparr>, w)
      else do {
        (fd, w) \<leftarrow> blk_mq_freeze_queue E fd w;
        let (fd, w) = openflash_fail_io_requests BLK_STS_TIMEOUT fd w;
        (ret, fd, w) \<leftarrow> openflash_reset_controller E fd w;
        Some (fd\<lparr>fd_reset_pending := False\<rparr>, log Unfreeze_queue w)
      })"

text \<open>The handler always reports \<^verbatim>\<open>BLK_EH_DONE\<close>.\<close>

definition openflash_timeout :: "openflash_dev \<Rightarrow> 'd world \<Rightarrow> openflash_dev \<times> 'd world" where
  "openflash_timeout fd w =
     (if \<not> fd_reset_pending fd then (fd\<lparr>fd_reset_pending := True\<rparr>, log Schedule_work w) else (fd, w))"

section \<open>The disk\<close>

definition openflash_register_block_device ::
  "'d env \<Rightarrow> openflash_dev \<Rightarrow> 'd world \<Rightarrow> int \<times> openflash_dev \<times> 'd world"
where
  "openflash_register_block_device E fd w =
     (case kernel_call E (Alloc_tag_set (unat (fd_queue_depth fd) - 1)) w of (ret, w) \<Rightarrow>
      if ret \<noteq> 0 then (ret, fd, w)
      else (case kernel_call E Alloc_disk w of (ret, w) \<Rightarrow>
        if ret \<noteq> 0 then (ret, fd\<lparr>fd_disk := False\<rparr>, log Free_tag_set w)
        else
          let w = log (Queue_limits OPENFLASH_BLOCK_SIZE
                ((ucast (fd_queue_depth fd) - 1) * ucast OPENFLASH_SECTORS_PER_BLOCK) OPENFLASH_MAX_SGL_ENTRIES
                (fd_capabilities fd AND OPENFLASH_CAP_FLUSH \<noteq> 0) (fd_capabilities fd AND OPENFLASH_CAP_FUA \<noteq> 0)) w
          in case kernel_call E (Add_disk (fd_capacity_blocks fd * OPENFLASH_SECTORS_PER_BLOCK)) w of (ret, w) \<Rightarrow>
            if ret \<noteq> 0 then (ret, fd\<lparr>fd_disk := False\<rparr>, logs [Put_disk, Free_tag_set] w)
            else (0, fd\<lparr>fd_disk := True\<rparr>, w)))"

definition openflash_unregister_block_device :: "openflash_dev \<Rightarrow> 'd world \<Rightarrow> openflash_dev \<times> 'd world" where
  "openflash_unregister_block_device fd w =
     (if \<not> fd_disk fd then (fd, w)
      else (case openflash_fail_io_requests BLK_STS_IOERR fd (log Del_disk w) of (fd, w) \<Rightarrow>
        (fd\<lparr>fd_disk := False\<rparr>, logs [Put_disk, Free_tag_set] w)))"

section \<open>Probe and remove\<close>

text \<open>The driver data is \<open>None\<close> until \<^verbatim>\<open>pci_set_drvdata\<close>.\<close>

definition openflash_probe ::
  "'d env \<Rightarrow> 'd world \<Rightarrow> (int \<times> openflash_dev option \<times> 'd world) option"
where
  "openflash_probe E w =
     (case kernel_call E Enable_device w of (ret, w) \<Rightarrow>
      if ret \<noteq> 0 then Some (ret, None, w)
      else (case kernel_call E Set_dma_mask w of (ret, w) \<Rightarrow>
      if ret \<noteq> 0 then Some (ret, None, w)
      else (case kernel_call E Map_regions w of (ret, w) \<Rightarrow>
      if ret \<noteq> 0 then Some (ret, None, w)
      else if \<not> e_kcalloc E (w_log w) then Some (- ENOMEM, None, w)
      else (case readq E OPENFLASH_REG_CAPABILITIES (log (Kcalloc 1) w) of (caps, w) \<Rightarrow>
        let fd = \<lparr>fd_queues = [], fd_nr_queues = 0, fd_queue_depth = OPENFLASH_DEFAULT_Q_DEPTH,
              fd_capacity_blocks = 0, fd_capabilities = caps, fd_disk = False, fd_reset_pending = False\<rparr>
        in case readl E OPENFLASH_REG_ABI_VERSION w of (version, w) \<Rightarrow>
        if version \<noteq> OPENFLASH_ABI_VERSION then Some (- EPROTO, None, w)
        else do {
          (ret, fd, w) \<leftarrow> openflash_setup_admin_queue E fd (log Set_master w);
          if ret \<noteq> 0 then Some (ret, Some fd, log Clear_master w)
          else do {
            (ret, fd, w) \<leftarrow> openflash_admin_identify E fd w;
            if ret \<noteq> 0 then do {
              (fd, w) \<leftarrow> openflash_teardown_admin_queue E fd w;
              Some (ret, Some fd, log Clear_master w)
            } else do {
              (ret, fd, w) \<leftarrow> openflash_setup_io_queue E fd w;
              if ret \<noteq> 0 then do {
                (fd, w) \<leftarrow> openflash_teardown_admin_queue E fd w;
                Some (ret, Some fd, log Clear_master w)
              } else (case openflash_register_block_device E fd w of (ret, fd, w) \<Rightarrow>
                if ret \<noteq> 0 then (case openflash_teardown_io_queue fd w of (fd, w) \<Rightarrow> do {
                  (fd, w) \<leftarrow> openflash_teardown_admin_queue E fd w;
                  Some (ret, Some fd, log Clear_master w)
                }) else Some (0, Some fd, w))
            }
          }
        }))))"

definition openflash_remove ::
  "'d env \<Rightarrow> openflash_dev option \<Rightarrow> 'd world \<Rightarrow> (openflash_dev option \<times> 'd world) option"
where
  "openflash_remove E drvdata w = (case drvdata of
     None \<Rightarrow> Some (None, w)
   | Some fd \<Rightarrow>
       case openflash_unregister_block_device fd (log Cancel_work w) of (fd, w) \<Rightarrow>
       case openflash_teardown_io_queue fd w of (fd, w) \<Rightarrow> do {
         (fd, w) \<leftarrow> openflash_teardown_admin_queue E fd w;
         Some (Some fd, log Clear_master w)
       })"

end
