(* ===== verification/Phase_Ring.thy ===== *)
theory Phase_Ring
  imports Prelude
begin

text \<open>
  The phase-tagged completion ring, as both of its ends use it.  A cursor is a slot and a phase bit; it
  moves to the next slot and flips the phase when it wraps.  Counting the moves from a cleared ring, the
  \<open>n\<close>-th entry goes to slot \<open>n mod d\<close> with the phase \<open>(n div d + 1) mod 2\<close>.  The
  locale \<open>phase_ring\<close> is the contract of a cursor; \<open>phase_consumer\<close> adds a test of the entry
  under the cursor against constant memory and derives that draining the ring ends.
\<close>

section \<open>Positions\<close>

definition ring_slot :: "nat \<Rightarrow> nat \<Rightarrow> nat" where
  "ring_slot d n = n mod d"

definition ring_phase :: "nat \<Rightarrow> nat \<Rightarrow> nat" where
  "ring_phase d n = (n div d + 1) mod 2"

lemma ring_slot_Suc: "ring_slot d (Suc n) = (ring_slot d n + 1) mod d"
  by (simp add: ring_slot_def mod_Suc_eq)

lemma ring_phase_Suc:
  assumes "0 < d"
  shows "ring_phase d (Suc n) = (if ring_slot d (Suc n) = 0 then 1 - ring_phase d n else ring_phase d n)"
proof (cases "Suc n mod d = 0")
  case True
  then have "Suc n div d = Suc (n div d)" by (simp add: div_Suc)
  then show ?thesis using True by (simp add: ring_phase_def ring_slot_def mod_Suc)
next
  case False
  then have "Suc n div d = n div d" by (simp add: div_Suc)
  then show ?thesis using False by (simp add: ring_phase_def ring_slot_def)
qed

lemma ring_phase_bound: "ring_phase d n < 2"
  by (simp add: ring_phase_def)

text \<open>One lap later the slot is the same and the phase the other one.\<close>

lemma ring_lap:
  assumes "0 < d"
  shows "ring_slot d (n + d) = ring_slot d n" "ring_phase d (n + d) = 1 - ring_phase d n"
  using assms by (simp_all add: ring_slot_def ring_phase_def div_add_self2 mod_Suc)

text \<open>What the phase bits of a ring of cleared memory are after \<open>n\<close> entries: the bit of the last
  entry written to the slot, or 0.\<close>

definition last_entry :: "nat \<Rightarrow> nat \<Rightarrow> nat \<Rightarrow> nat" where
  "last_entry d n i = n - 1 - (n - 1 - i) mod d"

definition ring_flag :: "nat \<Rightarrow> nat \<Rightarrow> nat \<Rightarrow> nat" where
  "ring_flag d n i = (if i < n then ring_phase d (last_entry d n i) else 0)"

lemma last_entry_unique:
  assumes "p mod d = i" "p < n" "n \<le> p + d" "i < d"
  shows "last_entry d n i = p"
proof -
  obtain k where k: "p = i + d * k" using assms(1) by (metis add.commute mult_div_mod_eq)
  have "n - 1 - i = (n - 1 - p) + d * k" using assms(2) k by simp
  then have "(n - 1 - i) mod d = (n - 1 - p) mod d" by (metis mod_mult_self2)
  then have "(n - 1 - i) mod d = n - 1 - p" using assms by simp
  then show ?thesis using assms(2) by (simp add: last_entry_def)
qed

lemma ring_flag_entry:
  assumes "p < n" "n \<le> p + d" "0 < d"
  shows "ring_flag d n (p mod d) = ring_phase d p"
proof -
  have "p mod d < n" using assms by (meson le_less_trans mod_less_eq_dividend)
  then show ?thesis using assms by (simp add: ring_flag_def last_entry_unique)
qed

text \<open>The protocol: a consumer that has taken \<open>c\<close> of \<open>n\<close> entries, and is at most one lap behind, sees
  its own phase in the slot under its cursor exactly when there is an entry left to take.\<close>

lemma phase_protocol:
  assumes "0 < d" "c \<le> n" "n \<le> c + d"
  shows "ring_flag d n (ring_slot d c) = ring_phase d c \<longleftrightarrow> c < n"
proof (cases "c < n")
  case True
  then show ?thesis using ring_flag_entry [of c n d] assms by (simp add: ring_slot_def)
next
  case False
  then have n: "n = c" using assms by simp
  show ?thesis
  proof (cases "c < d")
    case True
    then show ?thesis by (simp add: n ring_flag_def ring_slot_def ring_phase_def)
  next
    case False
    define p where "p = c - d"
    have c: "c = p + d" using False by (simp add: p_def)
    have "ring_flag d n (p mod d) = ring_phase d p"
      using ring_flag_entry [of p n d] assms(1) by (simp add: n c)
    then show ?thesis
      using ring_lap [OF assms(1), of p] ring_phase_bound [of d p] by (auto simp: n c ring_slot_def less_2_cases_iff)
  qed
qed

text \<open>Writing the next entry turns the flags of \<open>n\<close> entries into those of \<open>n + 1\<close>.\<close>

lemma ring_flag_Suc:
  assumes "i < d"
  shows "ring_flag d (Suc n) i = (if i = ring_slot d n then ring_phase d n else ring_flag d n i)"
proof (cases "i = n mod d")
  case True
  then show ?thesis using ring_flag_entry [of n "Suc n" d] assms by (simp add: ring_slot_def)
next
  case False
  then have "last_entry d (Suc n) i = last_entry d n i" if "i < n"
  proof -
    have "(n - i) mod d \<noteq> 0"
      using False that assms mod_eq_dvd_iff_nat [of i n d] by (auto simp: mod_eq_0_iff_dvd)
    then have "(n - i) mod d = Suc ((n - 1 - i) mod d)"
      using that by (metis Suc_diff_Suc diff_Suc_1' diff_diff_left mod_Suc plus_1_eq_Suc)
    then show ?thesis by (simp add: last_entry_def)
  qed
  moreover have "i \<noteq> n" if "\<not> i < n" using False assms by auto
  ultimately show ?thesis using False by (auto simp: ring_flag_def ring_slot_def less_Suc_eq)
qed

section \<open>Cursors\<close>

locale phase_ring =
  fixes inv :: "'q \<Rightarrow> bool" and depth slot phase :: "'q \<Rightarrow> nat" and adv :: "'q \<Rightarrow> 'q"
  assumes inv_adv: "inv q \<Longrightarrow> inv (adv q)"
    and depth_adv: "inv q \<Longrightarrow> depth (adv q) = depth q"
    and slot_bound: "inv q \<Longrightarrow> slot q < depth q"
    and phase_bound: "inv q \<Longrightarrow> phase q < 2"
    and slot_adv: "inv q \<Longrightarrow> slot (adv q) = (slot q + 1) mod depth q"
    and phase_adv: "inv q \<Longrightarrow> phase (adv q) = (if slot (adv q) = 0 then 1 - phase q else phase q)"
begin

lemma steps_inv: "inv q \<Longrightarrow> inv ((adv ^^ k) q) \<and> depth ((adv ^^ k) q) = depth q"
  by (induction k) (simp_all add: inv_adv depth_adv)

lemma steps_position:
  assumes "inv q" "slot q = ring_slot (depth q) n" "phase q = ring_phase (depth q) n"
  shows "slot ((adv ^^ k) q) = ring_slot (depth q) (n + k) \<and> phase ((adv ^^ k) q) = ring_phase (depth q) (n + k)"
proof (induction k)
  case 0
  then show ?case using assms by simp
next
  case (Suc k)
  have d: "0 < depth q" using slot_bound [OF assms(1)] by simp
  have "inv ((adv ^^ k) q)" "depth ((adv ^^ k) q) = depth q" using steps_inv [OF assms(1)] by auto
  then show ?case using Suc by (simp add: slot_adv phase_adv ring_slot_Suc ring_phase_Suc [OF d])
qed

lemma some_position:
  assumes "inv q"
  shows "\<exists>n. slot q = ring_slot (depth q) n \<and> phase q = ring_phase (depth q) n"
proof -
  have s: "slot q < depth q" by (rule slot_bound [OF assms])
  show ?thesis
  proof (cases "phase q = 0")
    case True
    moreover have "(slot q + depth q) div depth q = 1" using s by (simp add: div_add_self2)
    ultimately show ?thesis using s by (intro exI [of _ "slot q + depth q"]) (simp add: ring_slot_def ring_phase_def)
  next
    case False
    then have "phase q = 1" using phase_bound [OF assms] by simp
    then show ?thesis using s by (intro exI [of _ "slot q"]) (simp add: ring_slot_def ring_phase_def)
  qed
qed

text \<open>A lap brings the cursor back to its slot with the other phase.\<close>

lemma lap:
  assumes "inv q"
  shows "slot ((adv ^^ depth q) q) = slot q" "phase ((adv ^^ depth q) q) = 1 - phase q"
proof -
  obtain n where n: "slot q = ring_slot (depth q) n" "phase q = ring_phase (depth q) n"
    using some_position [OF assms] by blast
  have "0 < depth q" using slot_bound [OF assms] by simp
  then show "slot ((adv ^^ depth q) q) = slot q" "phase ((adv ^^ depth q) q) = 1 - phase q"
    using steps_position [OF assms n, of "depth q"] ring_lap [of "depth q" n] n by simp_all
qed

end

text \<open>The consumer compares the entry under its cursor, read from memory that does not change meanwhile,
  with its phase.\<close>

locale phase_consumer = phase_ring inv depth slot phase adv
  for inv :: "'q \<Rightarrow> bool" and depth slot phase :: "'q \<Rightarrow> nat" and adv :: "'q \<Rightarrow> 'q" +
  fixes flag :: "'q \<Rightarrow> nat \<Rightarrow> nat" and ready :: "'q \<Rightarrow> bool"
  assumes flag_adv: "inv q \<Longrightarrow> flag (adv q) = flag q"
    and ready_iff: "inv q \<Longrightarrow> ready q \<longleftrightarrow> flag q (slot q) = phase q"
begin

lemma steps_flag: "inv q \<Longrightarrow> flag ((adv ^^ k) q) = flag q"
  by (induction k) (simp_all add: flag_adv steps_inv)

lemma drains:
  assumes "inv q"
  obtains k where "k \<le> depth q" "\<not> ready ((adv ^^ k) q)" "\<And>j. j < k \<Longrightarrow> ready ((adv ^^ j) q)"
proof -
  have "\<exists>k\<le>depth q. \<not> ready ((adv ^^ k) q)"
  proof (cases "ready q")
    case True
    have "\<not> ready ((adv ^^ depth q) q)"
      using True assms lap [OF assms] phase_bound [OF assms] steps_inv [OF assms, of "depth q"]
      by (auto simp: ready_iff steps_flag less_2_cases_iff)
    then show ?thesis by blast
  next
    case False
    then show ?thesis by (intro exI [of _ 0]) simp
  qed
  then obtain k where "k \<le> depth q" "\<not> ready ((adv ^^ k) q)" by blast
  then show thesis
    using that [of "LEAST k. \<not> ready ((adv ^^ k) q)"] LeastI [of "\<lambda>k. \<not> ready ((adv ^^ k) q)" k]
      Least_le [of "\<lambda>k. \<not> ready ((adv ^^ k) q)" k] not_less_Least [of _ "\<lambda>k. \<not> ready ((adv ^^ k) q)"]
    by (meson le_trans)
qed

text \<open>A consumer at position \<open>c\<close> of a ring that holds \<open>n\<close> entries takes exactly the rest.\<close>

lemma takes_all:
  assumes "inv q" "slot q = ring_slot (depth q) c" "phase q = ring_phase (depth q) c"
    and "\<And>i. i < depth q \<Longrightarrow> flag q i = ring_flag (depth q) n i" "c \<le> n" "n \<le> c + depth q"
  shows "\<not> ready ((adv ^^ (n - c)) q)" and "j < n - c \<Longrightarrow> ready ((adv ^^ j) q)"
proof -
  have d: "0 < depth q" using slot_bound [OF assms(1)] by simp
  have r: "ready ((adv ^^ j) q) \<longleftrightarrow> c + j < n" if "c + j \<le> n" for j
  proof -
    have i: "inv ((adv ^^ j) q)" "depth ((adv ^^ j) q) = depth q" using steps_inv [OF assms(1)] by auto
    have "ring_slot (depth q) (c + j) < depth q" using d by (simp add: ring_slot_def)
    then show ?thesis
      using ready_iff [OF i(1)] steps_flag [OF assms(1), of j] steps_position [OF assms(1-3), of j] assms(4)
        phase_protocol [OF d that] assms(6) by simp
  qed
  show "\<not> ready ((adv ^^ (n - c)) q)" using r [of "n - c"] assms(5) by simp
  show "j < n - c \<Longrightarrow> ready ((adv ^^ j) q)" using r [of j] by simp
qed

end

end
