(* ===== verification/Host_Ring.thy ===== *)
theory Host_Ring
  imports Host_Queue Phase_Ring
begin

text \<open>
  The driver as the consumer of its completion rings: its cursor is a \<open>phase_ring\<close>, and both interrupt
  handlers are \<open>phase_consumer\<close>s, so that they end, and take exactly the completions the device has
  posted.
\<close>

section \<open>The consumer's cursor\<close>

definition cq_ok :: "openflash_queue \<Rightarrow> bool" where
  "cq_ok q \<longleftrightarrow> unat (hq_cq_head q) < unat (hq_depth q) \<and> unat (hq_cq_phase q) < 2"

definition cq_flag :: "mem \<Rightarrow> openflash_queue \<Rightarrow> nat \<Rightarrow> nat" where
  "cq_flag m q i = unat (oe_flags (dec_completion (mem_load m (hq_cq_dma q + of_nat i * 64) 64)) AND OPENFLASH_CQE_PHASE)"

lemma unat_next_index:
  assumes "0 < unat d"
  shows "unat (next_index i d) = (unat i + 1) mod unat d"
proof -
  have "unat (ucast i + 1 :: u32) = unat i + 1"
    using unat_u16_lt [of i] by (simp add: unat_word_ariths(1))
  moreover have "(unat i + 1) mod unat d < 65536"
    using assms unat_u16_lt [of d] by (meson less_trans mod_less_divisor)
  ultimately show ?thesis
    by (simp add: next_index_def unat_ucast_u32_u16 unat_mod)
qed

lemma unat_phase_flip:
  assumes "unat (x :: u8) < 2"
  shows "unat (x XOR ucast OPENFLASH_CQE_PHASE) = 1 - unat x"
proof -
  have "x = 0 \<or> x = 1" using assms by (auto simp: word_unat_eq_iff less_2_cases_iff)
  then show ?thesis by (auto simp: OPENFLASH_CQE_PHASE_def)
qed

lemma cq_ready_iff: "cq_ready m q \<longleftrightarrow> cq_flag m q (unat (hq_cq_head q)) = unat (hq_cq_phase q)"
  by (simp add: cq_ready_def cq_entry_def cq_flag_def word_unat_eq_iff)

lemma advance_cq_simps [simp]:
  "hq_cq_dma (advance_cq q) = hq_cq_dma q" "hq_depth (advance_cq q) = hq_depth q"
  "hq_requests (advance_cq q) = hq_requests q" "hq_qid (advance_cq q) = hq_qid q"
  "hq_sq_dma (advance_cq q) = hq_sq_dma q" "hq_sq_tail (advance_cq q) = hq_sq_tail q"
  "hq_admin_done (advance_cq q) = hq_admin_done q" "hq_admin_pending (advance_cq q) = hq_admin_pending q"
  "hq_admin_cid (advance_cq q) = hq_admin_cid q" "hq_admin_status (advance_cq q) = hq_admin_status q"
  "hq_admin_result (advance_cq q) = hq_admin_result q" "hq_admin_error (advance_cq q) = hq_admin_error q"
  by (simp_all add: advance_cq_def Let_def)

lemma admin_complete_simps [simp]:
  "hq_cq_dma (admin_complete e q) = hq_cq_dma q" "hq_depth (admin_complete e q) = hq_depth q"
  "hq_cq_head (admin_complete e q) = hq_cq_head q" "hq_cq_phase (admin_complete e q) = hq_cq_phase q"
  "hq_requests (admin_complete e q) = hq_requests q" "hq_qid (admin_complete e q) = hq_qid q"
  "hq_sq_dma (admin_complete e q) = hq_sq_dma q" "hq_sq_tail (admin_complete e q) = hq_sq_tail q"
  "hq_admin_cid (admin_complete e q) = hq_admin_cid q"
  by (simp_all add: admin_complete_def)

lemma io_complete_simps [simp]:
  "hq_cq_dma (fst (io_complete m e q)) = hq_cq_dma q" "hq_depth (fst (io_complete m e q)) = hq_depth q"
  "hq_cq_head (fst (io_complete m e q)) = hq_cq_head q" "hq_cq_phase (fst (io_complete m e q)) = hq_cq_phase q"
  "hq_qid (fst (io_complete m e q)) = hq_qid q" "hq_sq_dma (fst (io_complete m e q)) = hq_sq_dma q"
  "hq_sq_tail (fst (io_complete m e q)) = hq_sq_tail q"
  "length (hq_requests (fst (io_complete m e q))) = length (hq_requests q)"
  by (simp_all add: io_complete_def Let_def split: prod.splits)

text \<open>One iteration of each loop.\<close>

definition admin_step :: "mem \<Rightarrow> openflash_queue \<Rightarrow> openflash_queue" where
  "admin_step m q = advance_cq (admin_complete (cq_entry m q) q)"

definition io_step :: "mem \<Rightarrow> openflash_queue \<Rightarrow> openflash_queue" where
  "io_step m q = advance_cq (fst (io_complete m (cq_entry m q) q))"

definition io_calls :: "mem \<Rightarrow> openflash_queue \<Rightarrow> kcall list" where
  "io_calls m q = snd (io_complete m (cq_entry m q) q)"

lemma cursor_advance:
  assumes "cq_ok q"
  shows "unat (hq_cq_head (advance_cq q)) = (unat (hq_cq_head q) + 1) mod unat (hq_depth q)"
    "unat (hq_cq_phase (advance_cq q)) =
      (if unat (hq_cq_head (advance_cq q)) = 0 then 1 - unat (hq_cq_phase q) else unat (hq_cq_phase q))"
    "cq_ok (advance_cq q)"
proof -
  have d: "0 < unat (hq_depth q)" using assms by (simp add: cq_ok_def)
  show h: "unat (hq_cq_head (advance_cq q)) = (unat (hq_cq_head q) + 1) mod unat (hq_depth q)"
    by (simp add: advance_cq_def Let_def unat_next_index [OF d])
  show p: "unat (hq_cq_phase (advance_cq q)) =
      (if unat (hq_cq_head (advance_cq q)) = 0 then 1 - unat (hq_cq_phase q) else unat (hq_cq_phase q))"
    using assms by (simp add: advance_cq_def Let_def cq_ok_def unat_phase_flip unat_eq_zero)
  show "cq_ok (advance_cq q)"
    using h p d assms by (auto simp: cq_ok_def)
qed

interpretation host_ring: phase_ring cq_ok "\<lambda>q. unat (hq_depth q)" "\<lambda>q. unat (hq_cq_head q)" "\<lambda>q. unat (hq_cq_phase q)" advance_cq
  by unfold_locales (simp_all only: cursor_advance advance_cq_simps, simp_all add: cq_ok_def)

lemma cq_ok_cong: "hq_cq_head q' = hq_cq_head q \<Longrightarrow> hq_depth q' = hq_depth q \<Longrightarrow> hq_cq_phase q' = hq_cq_phase q \<Longrightarrow>
    cq_ok q' = cq_ok q"
  by (simp add: cq_ok_def)

lemma step_simps [simp]:
  "hq_cq_dma (admin_step m q) = hq_cq_dma q" "hq_depth (admin_step m q) = hq_depth q"
  "hq_cq_dma (io_step m q) = hq_cq_dma q" "hq_depth (io_step m q) = hq_depth q"
  "hq_qid (admin_step m q) = hq_qid q" "hq_qid (io_step m q) = hq_qid q"
  "hq_sq_dma (admin_step m q) = hq_sq_dma q" "hq_sq_tail (admin_step m q) = hq_sq_tail q"
  "hq_sq_dma (io_step m q) = hq_sq_dma q" "hq_sq_tail (io_step m q) = hq_sq_tail q"
  by (simp_all add: admin_step_def io_step_def)

interpretation admin_ring: phase_consumer cq_ok "\<lambda>q. unat (hq_depth q)" "\<lambda>q. unat (hq_cq_head q)"
  "\<lambda>q. unat (hq_cq_phase q)" "admin_step m" "cq_flag m" "cq_ready m" for m
proof
  fix q assume q: "cq_ok q"
  then have q': "cq_ok (admin_complete (cq_entry m q) q)" by (simp add: cq_ok_def)
  show "cq_ok (admin_step m q)" "unat (hq_cq_head (admin_step m q)) = (unat (hq_cq_head q) + 1) mod unat (hq_depth q)"
    "unat (hq_cq_phase (admin_step m q)) =
      (if unat (hq_cq_head (admin_step m q)) = 0 then 1 - unat (hq_cq_phase q) else unat (hq_cq_phase q))"
    using cursor_advance [OF q'] by (simp_all add: admin_step_def)
qed (auto simp: cq_ok_def cq_flag_def cq_ready_iff)

interpretation io_ring: phase_consumer cq_ok "\<lambda>q. unat (hq_depth q)" "\<lambda>q. unat (hq_cq_head q)"
  "\<lambda>q. unat (hq_cq_phase q)" "io_step m" "cq_flag m" "cq_ready m" for m
proof
  fix q assume q: "cq_ok q"
  then have q': "cq_ok (fst (io_complete m (cq_entry m q) q))" by (simp add: cq_ok_def)
  show "cq_ok (io_step m q)" "unat (hq_cq_head (io_step m q)) = (unat (hq_cq_head q) + 1) mod unat (hq_depth q)"
    "unat (hq_cq_phase (io_step m q)) =
      (if unat (hq_cq_head (io_step m q)) = 0 then 1 - unat (hq_cq_phase q) else unat (hq_cq_phase q))"
    using cursor_advance [OF q'] by (simp_all add: io_step_def)
qed (auto simp: cq_ok_def cq_flag_def cq_ready_iff)

text \<open>The loops run their step until the entry under the cursor is not ready.\<close>

lemma drain_admin_loop_steps:
  "\<not> cq_ready m ((admin_step m ^^ k) q) \<Longrightarrow> (\<And>j. j < k \<Longrightarrow> cq_ready m ((admin_step m ^^ j) q)) \<Longrightarrow>
   drain_admin_loop m q c = Some ((admin_step m ^^ k) q, c + k)"
proof (induction k arbitrary: q c)
  case 0
  then show ?case by (simp add: drain_admin_loop.simps)
next
  case (Suc k)
  have r: "cq_ready m q" using Suc.prems(2) [of 0] by simp
  have "drain_admin_loop m (admin_step m q) (c + 1) = Some ((admin_step m ^^ k) (admin_step m q), c + 1 + k)"
    using Suc.prems(1) Suc.prems(2) [of "Suc j" for j] by (intro Suc.IH) (simp_all add: funpow_swap1)
  then show ?case using r by (subst drain_admin_loop.simps) (simp add: admin_step_def funpow_swap1)
qed

lemma io_irq_loop_steps:
  "\<not> cq_ready m ((io_step m ^^ k) q) \<Longrightarrow> (\<And>j. j < k \<Longrightarrow> cq_ready m ((io_step m ^^ j) q)) \<Longrightarrow>
   io_irq_loop m q cs c =
     Some ((io_step m ^^ k) q, cs @ concat (map (\<lambda>j. io_calls m ((io_step m ^^ j) q)) [0..<k]), c + k)"
proof (induction k arbitrary: q cs c)
  case 0
  then show ?case by (simp add: io_irq_loop.simps)
next
  case (Suc k)
  have r: "cq_ready m q" using Suc.prems(2) [of 0] by simp
  have u: "map (\<lambda>j. io_calls m ((io_step m ^^ j) q)) [0..<Suc k] =
      io_calls m q # map (\<lambda>j. io_calls m ((io_step m ^^ j) (io_step m q))) [0..<k]"
    by (simp add: upt_conv_Cons map_Suc_upt [symmetric] funpow_swap1 o_def del: upt_Suc)
  have "io_irq_loop m (io_step m q) (cs @ io_calls m q) (c + 1) = Some ((io_step m ^^ k) (io_step m q),
      (cs @ io_calls m q) @ concat (map (\<lambda>j. io_calls m ((io_step m ^^ j) (io_step m q))) [0..<k]), c + 1 + k)"
    using Suc.prems(1) Suc.prems(2) [of "Suc j" for j] by (intro Suc.IH) (simp_all add: funpow_swap1)
  then show ?case using r unfolding u
    by (subst io_irq_loop.simps) (simp add: io_step_def io_calls_def funpow_swap1 case_prod_unfold)
qed

section \<open>What the handlers take\<close>

text \<open>The completion ring of a queue at bus address \<open>a\<close> holds \<open>n\<close> entries when its phase bits are those
  of \<open>n\<close> entries written to a cleared ring.\<close>

definition ring_holds :: "mem \<Rightarrow> openflash_queue \<Rightarrow> nat \<Rightarrow> bool" where
  "ring_holds m q n \<longleftrightarrow> (\<forall>i < unat (hq_depth q). cq_flag m q i = ring_flag (unat (hq_depth q)) n i)"

definition cursor_at :: "openflash_queue \<Rightarrow> nat \<Rightarrow> bool" where
  "cursor_at q c \<longleftrightarrow> unat (hq_cq_head q) = ring_slot (unat (hq_depth q)) c \<and>
     unat (hq_cq_phase q) = ring_phase (unat (hq_depth q)) c"

lemma admin_drain_takes:
  assumes "cq_ok q" "cursor_at q c" "ring_holds m q n" "c \<le> n" "n \<le> c + unat (hq_depth q)"
  shows "drain_admin_loop m q 0 = Some ((admin_step m ^^ (n - c)) q, n - c)"
  using assms admin_ring.takes_all [OF assms(1), of c m n]
  by (simp add: drain_admin_loop_steps cursor_at_def ring_holds_def)

lemma io_drain_takes:
  assumes "cq_ok q" "cursor_at q c" "ring_holds m q n" "c \<le> n" "n \<le> c + unat (hq_depth q)"
  shows "io_irq_loop m q [] 0 = Some ((io_step m ^^ (n - c)) q,
    concat (map (\<lambda>j. io_calls m ((io_step m ^^ j) q)) [0..<n - c]), n - c)"
  using assms io_ring.takes_all [OF assms(1), of c m n] io_irq_loop_steps [of m "n - c" q "[]" 0]
  by (simp add: cursor_at_def ring_holds_def)



end
