(* ===== verification/Host_Inv.thy ===== *)
theory Host_Inv
  imports Host_Block Host_Ring
begin

text \<open>
  The invariants of the driver: what its functions add to the history of kernel calls, what they leave of
  the driver's state, and the accounting of requests, DMA mappings and other kernel resources.
\<close>

section \<open>What a driver function adds to the history\<close>

definition extends :: "(kcall \<Rightarrow> bool) \<Rightarrow> 'd world \<Rightarrow> 'd world \<Rightarrow> bool" where
  "extends P w w' \<longleftrightarrow> (\<exists>cs. w_log w' = w_log w @ cs \<and> list_all P cs)"

named_theorems ext_intros

lemma extends_refl [ext_intros]: "extends P w w"
  by (simp add: extends_def)

lemma extends_trans [trans]: "extends P w w1 \<Longrightarrow> extends P w1 w2 \<Longrightarrow> extends P w w2"
  by (auto simp: extends_def)

lemma extends_mono: "extends P w w' \<Longrightarrow> (\<And>c. P c \<Longrightarrow> Q c) \<Longrightarrow> extends Q w w'"
  by (auto simp: extends_def list_all_iff)

lemma extends_log [ext_intros]: "extends P w w1 \<Longrightarrow> P c \<Longrightarrow> extends P w (log c w1)"
  by (auto simp: extends_def)

lemma extends_logs [ext_intros]: "extends P w w1 \<Longrightarrow> list_all P cs \<Longrightarrow> extends P w (logs cs w1)"
  by (auto simp: extends_def)

lemma extends_mem [ext_intros]: "extends P w w1 \<Longrightarrow> extends P w (w1\<lparr>w_mem := m\<rparr>)"
  by (auto simp: extends_def)

lemma extends_writel: "extends P w w1 \<Longrightarrow> writel E v a w1 = Some w2 \<Longrightarrow> P (Writel a v) \<Longrightarrow> extends P w w2"
  by (auto simp: extends_def dest: writel_log)

lemma extends_readl: "extends P w w1 \<Longrightarrow> readl E a w1 = (v, w2) \<Longrightarrow> extends P w w2"
  by (simp add: extends_def)

lemma extends_readq: "extends P w w1 \<Longrightarrow> readq E a w1 = (v, w2) \<Longrightarrow> extends P w w2"
  by (simp add: extends_def)

lemma extends_alloc:
  "extends P w w1 \<Longrightarrow> dma_alloc_coherent E n w1 = (r, w2) \<Longrightarrow> (\<And>a. P (Dma_alloc a n)) \<Longrightarrow> extends P w w2"
  by (cases r) (auto simp: extends_def dest: dma_alloc_log)

lemma extends_call:
  "extends P w w1 \<Longrightarrow> kernel_call E c w1 = (r, w2) \<Longrightarrow> P c \<Longrightarrow> P (Failed c) \<Longrightarrow> extends P w w2"
  by (auto simp: extends_def dest: kernel_call_log)

lemma extends_poll: "extends P w w1 \<Longrightarrow> readl_poll_timeout E a b w1 = (r, w2) \<Longrightarrow> extends P w w2"
  by (auto simp: extends_def readl_poll_timeout_def dest: poll_log)

lemma tally_extends:
  assumes "extends P w w'" "\<And>c. P c \<Longrightarrow> f c = 0"
  shows "tally f (w_log w') = tally f (w_log w)"
proof -
  have "tally f cs = 0" if "list_all P cs" for cs
    using that assms(2) by (induction cs) auto
  then show ?thesis using assms(1) by (auto simp: extends_def)
qed

section \<open>Admin traffic\<close>

fun admin_call :: "kcall \<Rightarrow> bool" where
  "admin_call (Writel a v) = True"
| "admin_call Mutex_lock = True"
| "admin_call Mutex_unlock = True"
| "admin_call (Synchronize_irq v) = True"
| "admin_call _ = False"

definition ring_of :: "openflash_queue \<Rightarrow> u64 \<times> u64 \<times> u16 \<times> u16" where
  "ring_of q = (hq_sq_dma q, hq_cq_dma q, hq_depth q, hq_qid q)"

text \<open>Admin commands and the admin interrupt handler change nothing of the driver but the admin queue,
  whose rings stay where they are.\<close>

definition admin_frame :: "openflash_dev \<Rightarrow> 'd world \<Rightarrow> openflash_dev \<Rightarrow> 'd world \<Rightarrow> bool" where
  "admin_frame fd w fd' w' \<longleftrightarrow> (\<exists>q. fd' = set_hq 0 q fd \<and> ring_of q = ring_of (hq fd 0) \<and> (cq_ok (hq fd 0) \<longrightarrow> cq_ok q)) \<and>
     extends admin_call w w'"

lemma hq_set_hq: "i < length (fd_queues fd) \<Longrightarrow> hq (set_hq i q fd) i = q" "i \<noteq> j \<Longrightarrow> hq (set_hq i q fd) j = hq fd j"
  "length (fd_queues (set_hq i q fd)) = length (fd_queues fd)" "set_hq i q (set_hq i q' fd) = set_hq i q fd"
  by (simp_all add: set_hq_def)

lemma set_hq_simps [simp]:
  "fd_nr_queues (set_hq i q fd) = fd_nr_queues fd" "fd_queue_depth (set_hq i q fd) = fd_queue_depth fd"
  "fd_capabilities (set_hq i q fd) = fd_capabilities fd" "fd_disk (set_hq i q fd) = fd_disk fd"
  "fd_capacity_blocks (set_hq i q fd) = fd_capacity_blocks fd" "fd_reset_pending (set_hq i q fd) = fd_reset_pending fd"
  by (simp_all add: set_hq_def)

lemma admin_frame_trans:
  assumes "admin_frame fd w fd1 w1" "admin_frame fd1 w1 fd2 w2" "fd_queues fd \<noteq> []"
  shows "admin_frame fd w fd2 w2"
  using assms extends_trans [of admin_call w w1 w2] by (fastforce simp: admin_frame_def hq_set_hq)

lemma ring_of_admin_step: "ring_of (admin_step m q) = ring_of q" "cq_ok q \<Longrightarrow> cq_ok (admin_step m q)"
  by (simp_all add: ring_of_def admin_ring.inv_adv)

lemma drain_admin_loop_keeps:
  assumes "drain_admin_loop m q c = Some (q', n)"
  shows "ring_of q' = ring_of q \<and> (cq_ok q \<longrightarrow> cq_ok q')"
proof -
  have "ring_of (fst (q', n)) = ring_of q \<and> (cq_ok q \<longrightarrow> cq_ok (fst (q', n)))"
  proof (rule drain_admin_loop.raw_induct [OF _ assms])
    fix loop m q c and r :: "openflash_queue \<times> nat"
    assume "\<And>m q c r. loop m q c = Some r \<Longrightarrow> ring_of (fst r) = ring_of q \<and> (cq_ok q \<longrightarrow> cq_ok (fst r))"
      and "(if \<not> cq_ready m q then Some (q, c)
        else loop m (advance_cq (admin_complete (cq_entry m q) q)) (c + 1)) = Some r"
    then show "ring_of (fst r) = ring_of q \<and> (cq_ok q \<longrightarrow> cq_ok (fst r))"
      using ring_of_admin_step(1) [of m q] ring_of_admin_step(2) [of q m]
      by (cases "cq_ready m q") (auto simp: admin_step_def)
  qed
  then show ?thesis by simp
qed

lemma admin_frame_refl: "extends admin_call w w' \<Longrightarrow> admin_frame fd w fd w'"
  unfolding admin_frame_def by (rule conjI, rule exI [of _ "hq fd 0"]) (simp_all add: set_hq_def)

lemma drain_admin_cq_frame:
  assumes "openflash_drain_admin_cq E fd w = Some (n, fd', w')"
  shows "admin_frame fd w fd' w'"
proof -
  obtain q k where d: "drain_admin_loop (w_mem w) (hq fd 0) 0 = Some (q, k)"
    and r: "fd' = set_hq 0 q fd" "w' = w \<or> (\<exists>v a. writel E v a w = Some w')"
    using assms by (auto simp: openflash_drain_admin_cq_def bind_eq_Some_conv split: if_splits)
  have "extends admin_call w w'"
    using r(2) extends_writel [OF extends_refl, of E _ _ w w' admin_call] by (auto simp: extends_refl)
  then show ?thesis using drain_admin_loop_keeps [OF d] r(1) by (auto simp: admin_frame_def)
qed

lemma openflash_irq_frame:
  assumes "openflash_irq E fd w = Some (r, fd', w')" "fd_queues fd \<noteq> []"
  shows "admin_frame fd w fd' w'"
proof -
  obtain st w1 where r: "readl E OPENFLASH_REG_STATUS w = (st, w1)" by fastforce
  have e: "admin_frame fd w fd w1" by (rule admin_frame_refl [OF extends_readl [OF extends_refl r]])
  consider "fd' = fd" "w' = w1" | n where "openflash_drain_admin_cq E fd w1 = Some (n, fd', w')"
    using assms r by (auto simp: openflash_irq_def bind_eq_Some_conv split: if_splits)
  then show ?thesis
  proof cases
    case 1
    then show ?thesis using e by simp
  next
    case 2
    then show ?thesis using admin_frame_trans [OF e drain_admin_cq_frame [OF 2] assms(2)] by simp
  qed
qed

lemma admin_frame_nonempty: "admin_frame fd w fd' w' \<Longrightarrow> fd_queues fd \<noteq> [] \<Longrightarrow> fd_queues fd' \<noteq> []"
  by (auto simp: admin_frame_def set_hq_def)

lemma take_irqs_frame:
  "take_irqs E n fd w = Some (fd', w') \<Longrightarrow> fd_queues fd \<noteq> [] \<Longrightarrow> admin_frame fd w fd' w'"
proof (induction n arbitrary: fd w)
  case 0
  then show ?case by (simp add: admin_frame_refl extends_refl)
next
  case (Suc n)
  then obtain r fd1 w1 where "openflash_irq E fd w = Some (r, fd1, w1)" "take_irqs E n fd1 w1 = Some (fd', w')"
    by (auto simp: bind_eq_Some_conv)
  then show ?case
    using Suc.IH [of fd1 w1] Suc.prems(2) openflash_irq_frame [of E fd w r fd1 w1] admin_frame_nonempty [of fd w fd1 w1]
      admin_frame_trans [of fd w fd1 w1 fd' w'] by simp
qed

lemma admin_frame_upd:
  assumes "ring_of q = ring_of (hq fd 0)" "hq_cq_head q = hq_cq_head (hq fd 0)" "hq_cq_phase q = hq_cq_phase (hq fd 0)"
    "extends admin_call w w'"
  shows "admin_frame fd w (set_hq 0 q fd) w'"
  using assms by (auto simp: admin_frame_def cq_ok_def ring_of_def)

lemma wait_frame:
  assumes "wait_for_completion_timeout E fd w = Some (b, fd', w')" "fd_queues fd \<noteq> []"
  shows "admin_frame fd w fd' w'"
proof -
  obtain fd1 w1 where t: "take_irqs E (e_irqs E (w_log w)) fd w = Some (fd1, w1)"
    using assms(1) by (cases "take_irqs E (e_irqs E (w_log w)) fd w") (auto simp: wait_for_completion_timeout_def)
  have "admin_frame fd1 w1 (set_hq 0 ((hq fd1 0)\<lparr>hq_admin_done := n\<rparr>) fd1) w1" for n
    by (rule admin_frame_upd) (simp_all add: ring_of_def extends_refl)
  then have "admin_frame fd1 w1 fd' w'"
    using assms(1) t admin_frame_refl [OF extends_refl]
    by (cases "hq_admin_done (hq fd1 0) = 0") (auto simp: wait_for_completion_timeout_def Let_def)
  then show ?thesis using admin_frame_trans [OF take_irqs_frame [OF t assms(2)]] assms(2) by simp
qed

lemma issue_cid_keeps:
  "issue_cid q = (q', cid) \<Longrightarrow> ring_of q' = ring_of q \<and> hq_cq_head q' = hq_cq_head q \<and> hq_cq_phase q' = hq_cq_phase q \<and>
     hq_sq_tail q' = hq_sq_tail q \<and> cid \<noteq> 0"
  by (auto simp: issue_cid_def Let_def ring_of_def split: if_splits)

lemma post_admin_frame:
  assumes "post_admin cmd fd w = (fd', w')"
  shows "admin_frame fd w fd' w'"
proof -
  obtain q cid where i: "issue_cid (hq fd 0) = (q, cid)" by fastforce
  have r: "fd' = set_hq 0 (q\<lparr>hq_admin_done := 0, hq_admin_cid := cid, hq_admin_error := 0, hq_admin_pending := True,
      hq_sq_tail := next_index (hq_sq_tail q) (hq_depth q)\<rparr>) fd"
    and e: "extends admin_call w w'"
    using assms unfolding post_admin_def Let_def i by (auto intro!: ext_intros)
  show ?thesis unfolding r using issue_cid_keeps [OF i] e by (intro admin_frame_upd) (simp_all add: ring_of_def)
qed

lemma admin_outcome_frame:
  assumes "admin_outcome b fd w = (ret, res, fd', w')"
  shows "admin_frame fd w fd' w'"
proof (cases b)
  case True
  then have "fd' = fd" "extends admin_call w w'"
    using assms by (auto simp: admin_outcome_def Let_def split: if_splits intro!: ext_intros)
  then show ?thesis by (simp add: admin_frame_refl)
next
  case False
  then have r: "fd' = set_hq 0 ((hq fd 0)\<lparr>hq_admin_pending := False\<rparr>) fd" and "extends admin_call w w'"
    using assms by (auto simp: admin_outcome_def Let_def intro!: ext_intros)
  then show ?thesis unfolding r by (intro admin_frame_upd) (simp_all add: ring_of_def)
qed

lemma admin_command_frame:
  assumes "openflash_admin_command E cmd fd w = Some (ret, res, fd', w')" "fd_queues fd \<noteq> []"
  shows "admin_frame fd w fd' w'"
proof -
  obtain fd0 w0 where p: "post_admin cmd fd w = (fd0, w0)" by fastforce
  obtain w1 b fd2 w2 where d: "writel E (ucast (hq_sq_tail (hq fd0 0))) (OPENFLASH_SQ_TAIL_DB (hq_qid (hq fd0 0))) w0 = Some w1"
    and wt: "wait_for_completion_timeout E fd0 w1 = Some (b, fd2, w2)"
    and o: "admin_outcome b fd2 w2 = (ret, res, fd', w')"
    using assms(1) by (auto simp: openflash_admin_command_def p bind_eq_Some_conv)
  have "admin_frame fd0 w0 fd0 w1"
    by (rule admin_frame_refl) (rule extends_writel [OF extends_refl d], simp)
  then show ?thesis
    using post_admin_frame [OF p] wait_frame [OF wt] admin_outcome_frame [OF o] assms(2)
      admin_frame_trans admin_frame_nonempty by metis
qed

section \<open>Set-up and tear-down\<close>

lemma start_controller_log:
  "start_controller E q w = Some (b, w') \<Longrightarrow> \<exists>cs. w_log w' = w_log w @ cs \<and> list_all admin_call cs"
  by (auto simp: start_controller_def bind_eq_Some_conv readl_poll_timeout_def dest!: writel_log poll_log)

lemma create_io_queue_frame:
  assumes "openflash_create_io_queue E fd w = Some (ret, fd', w')" "fd_queues fd \<noteq> []"
  shows "admin_frame fd w fd' w'"
  using assms by (auto simp: openflash_create_io_queue_def Let_def bind_eq_Some_conv split: if_splits dest: admin_command_frame)

lemma admin_identify_frame:
  assumes "openflash_admin_identify E fd w = Some (ret, fd', w')" "fd_queues fd \<noteq> []"
  shows "\<exists>fd1. admin_frame fd w fd1 w' \<and> (fd' = fd1 \<or> (\<exists>c. fd' = fd1\<lparr>fd_capacity_blocks := c\<rparr>))"
  using assms by (auto simp: openflash_admin_identify_def bind_eq_Some_conv split: if_splits dest: admin_command_frame)

lemma alloc_sgls_keeps:
  "alloc_sgls E n tag rs w = (ok, tag', rs', w') \<Longrightarrow>
   length rs' = length rs \<and> map r_rq rs' = map r_rq rs \<and> (\<exists>cs. w_log w' = w_log w @ cs \<and> list_all (\<lambda>c. \<exists>a. c = Dma_alloc a sgl_table_size) cs)"
proof (induction E n tag rs w arbitrary: ok tag' rs' w' rule: alloc_sgls.induct)
  case (1 E tag rs w)
  then show ?case by auto
next
  case (2 E n tag rs w)
  obtain r w1 where d: "dma_alloc_coherent E sgl_table_size w = (r, w1)" by fastforce
  show ?case
  proof (cases r)
    case None
    then show ?thesis using 2(2) d dma_alloc_log(2) [of E sgl_table_size w w1] by auto
  next
    case (Some a)
    have l: "w_log w1 = w_log w @ [Dma_alloc a sgl_table_size]" using dma_alloc_log(1) d Some by blast
    have "map r_rq (rs[tag := (rs ! tag)\<lparr>r_sgl_dma := a\<rparr>]) = map r_rq rs"
      by (cases "tag < length rs") (simp_all add: map_update list_update_same_conv list_update_beyond)
    then show ?thesis using 2(1) [OF d [symmetric] Some] 2(2) l by (auto simp: d Some)
  qed
qed

lemma setup_admin_ok:
  assumes "openflash_setup_admin_queue E fd w = Some (0, fd', w')" "fd_queue_depth fd \<noteq> 0"
  shows "length (fd_queues fd') = 2" "cq_ok (hq fd' 0)" "hq fd' 1 = zero_hq" "fd_queue_depth fd' = fd_queue_depth fd"
    "fd_disk fd' = fd_disk fd" "fd_nr_queues fd' = 1"
  using assms
  by (auto simp: openflash_setup_admin_queue_def Let_def bind_eq_Some_conv set_hq_def cq_ok_def zero_hq_def errno_simps unat_gt_0
      split: if_splits prod.splits option.splits)

fun not_rq :: "kcall \<Rightarrow> bool" where
  "not_rq (Start_request rq) = False"
| "not_rq (End_request rq st) = False"
| "not_rq _ = True"

lemma admin_not_rq: "admin_call c \<Longrightarrow> not_rq c"
  by (cases c) auto

lemma setup_admin_ext:
  assumes "openflash_setup_admin_queue E fd w = Some (ret, fd', w')"
  shows "extends not_rq w w'"
proof -
  have s: "list_all not_rq cs" if "list_all admin_call cs" for cs using that admin_not_rq by (auto simp: list_all_iff)
  show ?thesis using assms
    by (auto simp: openflash_setup_admin_queue_def Let_def bind_eq_Some_conv extends_def
        split: if_splits prod.splits option.splits
        dest!: dma_alloc_log kernel_call_log start_controller_log writel_log s)
qed

text \<open>The invariant of the I/O queue: a valid cursor, one request slot per tag, and every request in the
  slot of its tag.\<close>

definition io_inv :: "openflash_queue \<Rightarrow> bool" where
  "io_inv q \<longleftrightarrow> cq_ok q \<and> length (hq_requests q) = unat (hq_depth q) - 1 \<and>
     (\<forall>i < length (hq_requests q). \<forall>rq. r_rq (hq_requests q ! i) = Some rq \<longrightarrow> rq_tag rq = i)"

definition occupancy :: "request \<Rightarrow> openflash_queue \<Rightarrow> int" where
  "occupancy rq q = int (count_list (map r_rq (hq_requests q)) (Some rq))"

lemma io_inv_cong:
  "hq_requests q' = hq_requests q \<Longrightarrow> hq_depth q' = hq_depth q \<Longrightarrow> cq_ok q' = cq_ok q \<Longrightarrow> io_inv q' = io_inv q"
  "hq_requests q' = hq_requests q \<Longrightarrow> occupancy rq q' = occupancy rq q"
  by (simp_all add: io_inv_def occupancy_def)

lemma setup_io_ext:
  assumes "openflash_setup_io_queue E fd w = Some (ret, fd', w')" "length (fd_queues fd) = 2"
  shows "extends not_rq w w'"
proof -
  have s: "list_all not_rq cs" if "list_all admin_call cs" for cs using that admin_not_rq by (auto simp: list_all_iff)
  have s2: "list_all not_rq cs" if "list_all (\<lambda>c. \<exists>a. c = Dma_alloc a n) cs" for cs n using that by (auto simp: list_all_iff)
  have ne: "fd_queues (set_hq 1 q fd) \<noteq> []" for q using assms(2) by (auto simp: set_hq_def)
  have f: "list_all not_rq (free_sgls rs tag)" for rs tag by (simp add: free_sgls_def list_all_iff)
  have c: "\<exists>cs. w_log w2 = w_log w1 @ cs \<and> list_all admin_call cs"
    if "openflash_create_io_queue E (set_hq 1 q fd) w1 = Some (r, fd2, w2)" for q w1 r fd2 w2
    using create_io_queue_frame [OF that ne] by (auto simp: admin_frame_def extends_def)
  show ?thesis using assms
    by (auto simp: openflash_setup_io_queue_def Let_def bind_eq_Some_conv extends_def f
        simp del: One_nat_def split: if_splits prod.splits option.splits
        dest!: dma_alloc_log kernel_call_log alloc_sgls_keeps c s s2)
qed

lemma setup_io_ok:
  assumes "openflash_setup_io_queue E fd w = Some (0, fd', w')" "length (fd_queues fd) = 2"
    "hq fd 1 = zero_hq" "fd_queue_depth fd \<noteq> 0" "cq_ok (hq fd 0)"
  shows "io_inv (hq fd' 1) \<and> occupancy rq (hq fd' 1) = 0 \<and> length (fd_queues fd') = 2 \<and> cq_ok (hq fd' 0)"
proof -
  let ?n = "unat (fd_queue_depth fd) - 1"
  have ne: "fd_queues (set_hq 1 q fd) \<noteq> []" for q using assms(2) by (auto simp: set_hq_def)
  let ?good = "\<lambda>q. io_inv q \<and> occupancy rq q = 0"
  have g: "?good (zero_hq\<lparr>hq_qid := 1, hq_depth := fd_queue_depth fd, hq_cq_phase := 1, hq_sq_dma := sq, hq_cq_dma := cq, hq_requests := rs\<rparr>)"
    if "alloc_sgls E ?n 0 (replicate ?n zero_request) w1 = (ok, tag, rs, w2)" for sq cq rs ok tag w1 w2
  proof -
    have "length rs = ?n" "map r_rq rs = replicate ?n None"
      using alloc_sgls_keeps [OF that] by (auto simp: zero_request_def)
    moreover from this have "r_rq (rs ! i) = None" if "i < ?n" for i using that by (metis nth_map nth_replicate)
    moreover have "count_list (replicate ?n None) (Some rq) = 0" by simp
    ultimately show ?thesis using assms(4)
      by (simp add: io_inv_def occupancy_def cq_ok_def zero_hq_def unat_gt_0 del: map_replicate)
  qed
  have c: "?good (hq fd2 1) \<and> length (fd_queues fd2) = 2 \<and> cq_ok (hq fd2 0)"
    if "openflash_create_io_queue E (set_hq 1 q fd) w1 = Some (r, fd2, w2)" "?good q" for q w1 r fd2 w2
    using create_io_queue_frame [OF that(1) ne] assms(2,5) that(2)
    by (auto simp: admin_frame_def hq_set_hq set_hq_def)
  show ?thesis using assms
    by (auto simp: openflash_setup_io_queue_def Let_def bind_eq_Some_conv errno_simps hq_set_hq
        simp del: One_nat_def split: if_splits prod.splits option.splits dest!: c dest: g)
qed

section \<open>Accounting of requests\<close>

lemma count_list_update:
  "i < length xs \<Longrightarrow> int (count_list (xs[i := y]) z) =
     int (count_list xs z) - (if xs ! i = z then 1 else 0) + (if y = z then 1 else 0)"
proof (induction xs arbitrary: i)
  case Nil
  then show ?case by simp
next
  case (Cons x xs)
  show ?case
  proof (cases i)
    case (Suc j)
    then show ?thesis using Cons.IH [of j] Cons.prems by (simp split: if_splits)
  qed simp
qed

lemma occupancy_update:
  assumes "i < length (hq_requests q)"
  shows "occupancy rq (q\<lparr>hq_requests := (hq_requests q)[i := r]\<rparr>) = occupancy rq q -
    (if r_rq (hq_requests q ! i) = Some rq then 1 else 0) + (if r_rq r = Some rq then 1 else 0)"
  using count_list_update [of i "map r_rq (hq_requests q)"] assms by (simp add: occupancy_def map_update)

lemma tally_unmap: "(\<And>a n d. f (Dma_unmap a n d) = 0) \<Longrightarrow> tally f (unmap_calls m base dir n) = 0"
  by (induction n) auto

lemma start_weight_simps [simp]:
  "start_weight rq (Start_request r) = (if r = rq then 1 else 0)"
  "start_weight rq (End_request r st) = (if r = rq then -1 else 0)"
  "not_rq c \<Longrightarrow> start_weight rq c = 0"
  by (simp_all add: start_weight_def) (cases c; simp)

lemma finish_request_tally:
  assumes "finish_request m st r = (r', cs)"
  shows "tally (start_weight rq) cs = (if r_rq r = Some rq then -1 else 0)" "r_rq r' = None"
  using assms by (auto simp: finish_request_def tally_unmap split: option.splits)

lemma io_inv_update:
  assumes "io_inv q" "\<And>rq. r_rq r = Some rq \<Longrightarrow> rq_tag rq = j"
  shows "io_inv (q\<lparr>hq_requests := (hq_requests q)[j := r]\<rparr>)"
proof -
  have "rq_tag rq = i" if "i < length (hq_requests q)" "r_rq ((hq_requests q)[j := r] ! i) = Some rq" for i rq
    using assms that by (cases "i = j") (auto simp: io_inv_def)
  then show ?thesis using assms(1) by (simp add: io_inv_def cq_ok_def)
qed

text \<open>Completing one entry keeps the invariant, and ends exactly the requests it takes out of the table.\<close>

lemma io_complete_inv:
  assumes "io_inv q" "io_complete m cqe q = (q', cs)"
  shows "io_inv q'" "tally (start_weight rq) cs = occupancy rq q' - occupancy rq q" "hq_depth q' = hq_depth q"
proof -
  let ?i = "unat (oe_cid cqe) - 1"
  show "io_inv q'" "tally (start_weight rq) cs = occupancy rq q' - occupancy rq q" "hq_depth q' = hq_depth q"
  proof (atomize (full), cases "oe_cid cqe = 0 \<or> int (unat (oe_cid cqe)) > int (unat (hq_depth q)) - 1")
    case True
    then show "io_inv q' \<and> tally (start_weight rq) cs = occupancy rq q' - occupancy rq q \<and> hq_depth q' = hq_depth q"
      using assms by (auto simp: io_complete_def)
  next
    case False
    obtain r where f: "finish_request m (openflash_blk_status (oe_status cqe)) (hq_requests q ! ?i) = (r, cs)"
      and q': "q' = q\<lparr>hq_requests := (hq_requests q)[?i := r]\<rparr>"
      using assms(2) False by (auto simp: io_complete_def Let_def split: prod.splits)
    have "0 < unat (oe_cid cqe)" using False by (simp add: unat_gt_0)
    moreover have "unat (oe_cid cqe) \<le> unat (hq_depth q) - 1" using False by linarith
    ultimately have i: "?i < length (hq_requests q)" using assms(1) by (simp add: io_inv_def)
    have "io_inv q'"
      unfolding q' using finish_request_tally(2) [OF f] by (intro io_inv_update assms(1)) simp
    then show "io_inv q' \<and> tally (start_weight rq) cs = occupancy rq q' - occupancy rq q \<and> hq_depth q' = hq_depth q"
      using finish_request_tally [OF f] occupancy_update [OF i] by (simp add: q')
  qed
qed

lemma io_irq_loop_inv:
  assumes "io_irq_loop m q cs n = Some (q', cs', n')" "io_inv q"
  shows "io_inv q' \<and> tally (start_weight rq) cs' - occupancy rq q' = tally (start_weight rq) cs - occupancy rq q"
proof -
  let ?P = "\<lambda>m q cs n r. io_inv q \<longrightarrow> io_inv (fst r) \<and>
    tally (start_weight rq) (fst (snd r)) - occupancy rq (fst r) = tally (start_weight rq) cs - occupancy rq q"
  have "?P m q cs n (q', cs', n')"
  proof (rule io_irq_loop.raw_induct [OF _ assms(1)], rule impI)
    fix loop m q cs n and r :: "openflash_queue \<times> kcall list \<times> nat"
    assume IH: "\<And>m q cs n r. loop m q cs n = Some r \<Longrightarrow> ?P m q cs n r" and q: "io_inv q"
      and l: "(if \<not> cq_ready m q then Some (q, cs, n) else (case io_complete m (cq_entry m q) q of
          (q1, ds) \<Rightarrow> loop m (advance_cq q1) (cs @ ds) (n + 1))) = Some r"
    obtain q1 ds where c: "io_complete m (cq_entry m q) q = (q1, ds)" by fastforce
    have "io_inv (advance_cq q1)" "occupancy rq (advance_cq q1) = occupancy rq q1"
      using io_complete_inv(1) [OF q c] host_ring.inv_adv [of q1] by (auto simp: io_inv_def occupancy_def)
    then show "io_inv (fst r) \<and> tally (start_weight rq) (fst (snd r)) - occupancy rq (fst r) =
        tally (start_weight rq) cs - occupancy rq q"
      using IH [of m "advance_cq q1" "cs @ ds" "n + 1" r] l c q io_complete_inv(2) [OF q c, of rq]
      by (cases "cq_ready m q") auto
  qed
  then show ?thesis using assms(2) by simp
qed

text \<open>The driver's state is consistent with the history: for every request, the number of times it was started
  minus the number of times it was ended is the number of table entries that hold it.\<close>

definition driver_inv :: "openflash_dev \<Rightarrow> 'd world \<Rightarrow> bool" where
  "driver_inv fd w \<longleftrightarrow> length (fd_queues fd) = 2 \<and> cq_ok (hq fd 0) \<and> io_inv (hq fd 1) \<and>
     (\<forall>rq. tally (start_weight rq) (w_log w) = occupancy rq (hq fd 1))"

lemma driver_inv_io_irq:
  assumes "driver_inv fd w" "openflash_io_irq E fd w = Some (r, fd', w')"
  shows "driver_inv fd' w'"
proof -
  obtain q cs n where l: "io_irq_loop (w_mem w) (hq fd 1) [] 0 = Some (q, cs, n)" and fd': "fd' = set_hq 1 q fd"
    and w': "w_log w' = w_log w @ cs \<or> (\<exists>v a. w_log w' = w_log w @ cs @ [Writel a v])"
    using assms(2) by (auto simp: openflash_io_irq_def bind_eq_Some_conv split: if_splits dest: writel_log)
  have "io_inv q" and "tally (start_weight rq) cs = occupancy rq q - occupancy rq (hq fd 1)" for rq
    using io_irq_loop_inv [OF l, of rq] assms(1) by (simp_all add: driver_inv_def)
  then show ?thesis using assms(1) w' by (auto simp: driver_inv_def fd' hq_set_hq)
qed

lemma driver_inv_admin_frame:
  assumes "driver_inv fd w" "admin_frame fd w fd' w'"
  shows "driver_inv fd' w'"
proof -
  have "tally (start_weight rq) (w_log w') = tally (start_weight rq) (w_log w)" for rq
    using assms(2) by (intro tally_extends [of admin_call]) (auto simp: admin_frame_def admin_not_rq)
  then show ?thesis using assms by (auto simp: driver_inv_def admin_frame_def hq_set_hq)
qed

section \<open>Submission keeps the invariant\<close>

lemma driver_inv_log:
  assumes "driver_inv fd w" "extends not_rq w w'"
  shows "driver_inv fd w'"
  using assms tally_extends [OF assms(2)] by (simp add: driver_inv_def)

lemma driver_inv_cong:
  "driver_inv fd w \<Longrightarrow> w_log w' = w_log w \<Longrightarrow> driver_inv fd w'"
  "fd_queues fd' = fd_queues fd \<Longrightarrow> driver_inv fd' w = driver_inv fd w"
  by (simp_all add: driver_inv_def)

lemma unmap_not_rq: "list_all not_rq (unmap_calls m base dir n)"
  by (induction n) auto

lemma map_segments_ext: "map_segments E dir sgl bs k w = (ok, k', w') \<Longrightarrow> extends not_rq w w'"
proof (induction E dir sgl bs k w arbitrary: ok k' w' rule: map_segments.induct)
  case (1 E dir sgl mapped w)
  then show ?case by (simp add: extends_refl)
next
  case (2 E dir sgl b bs mapped w)
  show ?case
  proof (cases "e_map E (w_log w) b")
    case None
    then show ?thesis using 2(2) by (simp add: extends_refl)
  next
    case (Some dma)
    have "extends not_rq w (log (Dma_map b dma dir) (w\<lparr>w_mem := m\<rparr>))" for m by (intro ext_intros) simp
    then show ?thesis using extends_trans 2(1) [OF Some] 2(2) Some by fastforce
  qed
qed

text \<open>The ways a submission can end: before the lock, refused under the lock, or started.\<close>

lemma submit_request_refused:
  assumes "submit_request E rq opcode dir mapped fd w = Some (st, fd', w')"
    and "r_rq (hq_requests (hq fd 1) ! rq_tag rq) \<noteq> None \<or> rq_fua rq \<and> fd_capabilities fd AND OPENFLASH_CAP_FUA = 0"
  shows "st \<noteq> BLK_STS_OK" "fd' = fd" "extends not_rq w w'"
  using assms by (auto simp: submit_request_def Let_def unmap_not_rq split: if_splits intro!: ext_intros)

abbreviation io_slot :: "openflash_queue \<Rightarrow> u64" where
  "io_slot q \<equiv> hq_sq_dma q + ucast (hq_sq_tail q) * 64"

abbreviation started_queue :: "request \<Rightarrow> dma_data_direction \<Rightarrow> u16 \<Rightarrow> openflash_queue \<Rightarrow> openflash_queue" where
  "started_queue rq dir mapped q \<equiv> q\<lparr>hq_requests := (hq_requests q)[rq_tag rq := rq_entry rq dir mapped (hq_requests q ! rq_tag rq)],
     hq_sq_tail := next_index (hq_sq_tail q) (hq_depth q)\<rparr>"

lemma bind_Some_map: "Option.bind x (\<lambda>y. Some (f y)) = map_option f x"
  by (cases x) simp_all

lemma submit_request_eq:
  assumes "r_rq (hq_requests (hq fd 1) ! rq_tag rq) = None" "\<not> (rq_fua rq \<and> fd_capabilities fd AND OPENFLASH_CAP_FUA = 0)"
  shows "submit_request E rq opcode dir mapped fd w =
    map_option (\<lambda>w. (BLK_STS_OK, set_hq 1 (started_queue rq dir mapped (hq fd 1)) fd, log Spin_unlock w))
      (writel E (ucast (next_index (hq_sq_tail (hq fd 1)) (hq_depth (hq fd 1)))) (OPENFLASH_SQ_TAIL_DB (hq_qid (hq fd 1)))
        (log (Start_request rq) ((log Spin_lock w)\<lparr>w_mem := mem_store (w_mem w) (io_slot (hq fd 1))
          (enc_command (rq_command (hq fd 1) rq opcode mapped (r_sgl_dma (hq_requests (hq fd 1) ! rq_tag rq))))\<rparr>)))"
proof -
  have c: "(rq_fua rq \<and> fd_capabilities fd AND OPENFLASH_CAP_FUA = 0) = False" using assms(2) by simp
  have t: "hq_sq_tail (started_queue rq dir mapped q) = next_index (hq_sq_tail q) (hq_depth q)"
    "hq_qid (started_queue rq dir mapped q) = hq_qid q" for q by simp_all
  show ?thesis
    unfolding submit_request_def Let_def
    by (simp only: assms(1) c t if_False not_True_eq_False simp_thms bind_Some_map log_simps)
qed

lemma submit_request_started:
  assumes "submit_request E rq opcode dir mapped fd w = Some (st, fd', w')"
    and "r_rq (hq_requests (hq fd 1) ! rq_tag rq) = None" "\<not> (rq_fua rq \<and> fd_capabilities fd AND OPENFLASH_CAP_FUA = 0)"
  shows "st = BLK_STS_OK" "fd' = set_hq 1 (started_queue rq dir mapped (hq fd 1)) fd"
    "\<exists>v a. w_log w' = w_log w @ [Spin_lock, Start_request rq, Writel a v, Spin_unlock]"
proof -
  define w0 where "w0 = log (Start_request rq) ((log Spin_lock w)\<lparr>w_mem := mem_store (w_mem w) (io_slot (hq fd 1))
          (enc_command (rq_command (hq fd 1) rq opcode mapped (r_sgl_dma (hq_requests (hq fd 1) ! rq_tag rq))))\<rparr>)"
  obtain w1 where d: "writel E (ucast (next_index (hq_sq_tail (hq fd 1)) (hq_depth (hq fd 1)))) (OPENFLASH_SQ_TAIL_DB (hq_qid (hq fd 1))) w0 = Some w1"
    and r: "(BLK_STS_OK, set_hq 1 (started_queue rq dir mapped (hq fd 1)) fd, log Spin_unlock w1) = (st, fd', w')"
    using assms(1) unfolding submit_request_eq [OF assms(2,3)] map_option_eq_Some w0_def [symmetric] by (elim exE conjE)
  have "w_log w1 = w_log w @ [Spin_lock, Start_request rq] @ [Writel (OPENFLASH_SQ_TAIL_DB (hq_qid (hq fd 1)))
      (ucast (next_index (hq_sq_tail (hq fd 1)) (hq_depth (hq fd 1))))]"
    using writel_log [OF d] by (simp add: w0_def)
  then show "st = BLK_STS_OK" "fd' = set_hq 1 (started_queue rq dir mapped (hq fd 1)) fd"
    "\<exists>v a. w_log w' = w_log w @ [Spin_lock, Start_request rq, Writel a v, Spin_unlock]"
    using r unfolding prod.inject by (auto simp del: One_nat_def)
qed

lemma r_rq_entry [simp]: "r_rq (rq_entry rq dir mapped r) = Some rq"
  by (simp add: rq_entry_def)

lemma driver_inv_set_io:
  assumes "driver_inv fd w" "io_inv q" "\<And>rq. tally (start_weight rq) (w_log w') = occupancy rq q"
  shows "driver_inv (set_hq 1 q fd) w'"
  using assms by (simp add: driver_inv_def set_hq_def)

lemma driver_inv_submit_request:
  assumes "driver_inv fd w" "submit_request E rq opcode dir mapped fd w = Some (st, fd', w')"
    "rq_tag rq < length (hq_requests (hq fd 1))"
  shows "driver_inv fd' w'"
proof (cases "r_rq (hq_requests (hq fd 1) ! rq_tag rq) \<noteq> None \<or> rq_fua rq \<and> fd_capabilities fd AND OPENFLASH_CAP_FUA = 0")
  case True
  then show ?thesis using submit_request_refused [OF assms(2) True] driver_inv_log [OF assms(1)] by simp
next
  case False
  then have n: "r_rq (hq_requests (hq fd 1) ! rq_tag rq) = None"
    and c: "\<not> (rq_fua rq \<and> fd_capabilities fd AND OPENFLASH_CAP_FUA = 0)" by auto
  define r where "r = rq_entry rq dir mapped (hq_requests (hq fd 1) ! rq_tag rq)"
  define q where "q = (hq fd 1)\<lparr>hq_requests := (hq_requests (hq fd 1))[rq_tag rq := r]\<rparr>"
  define q' where "q' = started_queue rq dir mapped (hq fd 1)"
  have fd': "fd' = set_hq 1 q' fd" using submit_request_started(2) [OF assms(2) n c] by (simp add: q'_def)
  obtain v a where l: "w_log w' = w_log w @ [Spin_lock, Start_request rq, Writel a v, Spin_unlock]"
    using submit_request_started(3) [OF assms(2) n c] by blast
  have "io_inv q" unfolding q_def using assms(1) by (intro io_inv_update) (simp_all add: driver_inv_def r_def)
  then have i: "io_inv q'"
    by (subst io_inv_cong(1) [of q' q]) (simp_all add: cq_ok_def q_def q'_def r_def)
  have "occupancy rq' q' = occupancy rq' q" for rq' by (simp add: occupancy_def q_def q'_def r_def)
  then have "occupancy rq' q' = occupancy rq' (hq fd 1) + (if rq = rq' then 1 else 0)" for rq'
    using occupancy_update [OF assms(3), of rq' r] n by (simp add: q_def r_def)
  then show ?thesis
    unfolding fd' using assms(1) l by (intro driver_inv_set_io [OF assms(1) i]) (simp add: driver_inv_def)
qed

lemma driver_inv_queue_rq:
  assumes "driver_inv fd w" "openflash_queue_rq E rq fd w = Some (st, fd', w')" "rq_tag rq + 1 < 2 ^ 16"
  shows "driver_inv fd' w'"
proof -
  have t: "rq_tag rq < length (hq_requests (hq fd 1))" if "\<not> hq_depth (hq fd 1) \<le> of_nat (rq_tag rq) + 1"
  proof -
    have "unat (of_nat (rq_tag rq) + 1 :: u16) = rq_tag rq + 1"
      using assms(3) by (simp add: unat_word_ariths(1) unat_of_nat)
    then show ?thesis using that assms(1) by (simp add: driver_inv_def io_inv_def word_le_nat_alt)
  qed
  have d: "driver_inv fd' w'" if "submit_data E rq opcode dir fd w = Some (st, fd', w')"
    "rq_tag rq < length (hq_requests (hq fd 1))" for opcode dir
  proof -
    obtain ok k w1 where m: "map_segments E dir (r_sgl_dma (hq_requests (hq fd 1) ! rq_tag rq)) (rq_segments rq) 0 w = (ok, k, w1)"
      by (metis prod_cases3)
    have i: "driver_inv fd w1" by (rule driver_inv_log [OF assms(1) map_segments_ext [OF m]])
    show ?thesis
      using that m i driver_inv_submit_request [OF i _ that(2)] driver_inv_log [OF i] assms(1) unmap_not_rq
      by (auto simp: submit_data_def Let_def extends_logs extends_refl split: if_splits)
  qed
  show ?thesis
    using assms(1,2) t d driver_inv_submit_request [OF assms(1)]
    by (auto simp: openflash_queue_rq_def Let_def split: if_splits req_op.splits)
qed

section \<open>Recovery keeps the invariant\<close>

lemma fail_loop_spec:
  "fail_loop m st rs = (rs', cs) \<Longrightarrow> length rs' = length rs \<and> map r_rq rs' = replicate (length rs) None \<and>
     tally (start_weight rq) cs = - int (count_list (map r_rq rs) (Some rq))"
proof (induction rs arbitrary: rs' cs)
  case Nil
  then show ?case by simp
next
  case (Cons r rs)
  obtain r1 c1 rs1 d1 where f: "finish_request m st r = (r1, c1)" "fail_loop m st rs = (rs1, d1)" by fastforce
  then show ?case using Cons.IH [OF f(2)] Cons.prems finish_request_tally(1) [OF f(1), of rq] finish_request_tally(2) [OF f(1)] by auto
qed

lemma occupancy_eq:
  assumes "io_inv q"
  shows "occupancy rq q = (if \<exists>i < length (hq_requests q). r_rq (hq_requests q ! i) = Some rq then 1 else 0)"
proof -
  let ?xs = "map r_rq (hq_requests q)"
  let ?I = "{i. i < length (hq_requests q) \<and> r_rq (hq_requests q ! i) = Some rq}"
  have "{i. i < length ?xs \<and> Some rq = ?xs ! i} = ?I" by auto
  then have c: "occupancy rq q = int (card ?I)"
    by (simp add: occupancy_def count_list_eq_length_filter length_filter_conv_card)
  have "i = rq_tag rq" if "i \<in> ?I" for i using assms that unfolding io_inv_def by blast
  then consider "?I = {}" | "?I = {rq_tag rq}" by blast
  then show ?thesis
  proof cases
    case 1
    then have "\<not> (\<exists>i < length (hq_requests q). r_rq (hq_requests q ! i) = Some rq)" by blast
    then show ?thesis unfolding c 1 by simp
  next
    case 2
    then have "\<exists>i < length (hq_requests q). r_rq (hq_requests q ! i) = Some rq" by blast
    then show ?thesis unfolding c 2 by simp
  qed
qed

lemma fail_io_requests_spec:
  assumes "io_inv (hq fd 1)" "length (fd_queues fd) = 2" "openflash_fail_io_requests st fd w = (fd', w')" "\<not> fd_nr_queues fd < 2"
  obtains q cs where "fd' = set_hq 1 q fd" "w' = logs cs w" "io_inv q" "\<And>rq. occupancy rq q = 0"
    "\<And>rq. tally (start_weight rq) cs = - occupancy rq (hq fd 1)"
proof -
  have n: "unat (hq_depth (hq fd 1)) - 1 = length (hq_requests (hq fd 1))" using assms(1) by (simp add: io_inv_def)
  obtain rs cs where f: "fail_loop (w_mem w) st (hq_requests (hq fd 1)) = (rs, cs)" by fastforce
  have r: "fd' = set_hq 1 ((hq fd 1)\<lparr>hq_requests := rs\<rparr>) fd" "w' = logs (Synchronize_irq 1 # cs) w"
    using assms(3,4) n f by (auto simp: openflash_fail_io_requests_def Let_def)
  have l: "length rs = length (hq_requests (hq fd 1))" "map r_rq rs = replicate (length (hq_requests (hq fd 1))) None"
    using fail_loop_spec [OF f] by auto
  then have none: "r_rq (rs ! i) = None" if "i < length rs" for i using that by (metis nth_map nth_replicate)
  have "io_inv ((hq fd 1)\<lparr>hq_requests := rs\<rparr>)" using assms(1) l(1) none by (simp add: io_inv_def cq_ok_def)
  moreover have "occupancy rq ((hq fd 1)\<lparr>hq_requests := rs\<rparr>) = 0" for rq by (simp add: occupancy_def l(2))
  moreover have "tally (start_weight rq) (Synchronize_irq 1 # cs) = - occupancy rq (hq fd 1)" for rq
    using fail_loop_spec [OF f, of rq] by (simp add: occupancy_def)
  ultimately show ?thesis using that [OF r] by blast
qed

lemma driver_inv_fail:
  assumes "driver_inv fd w" "openflash_fail_io_requests st fd w = (fd', w')"
  shows "driver_inv fd' w'"
proof (cases "fd_nr_queues fd < 2")
  case True
  then show ?thesis using assms by (simp add: openflash_fail_io_requests_def)
next
  case False
  have d: "io_inv (hq fd 1)" "length (fd_queues fd) = 2" using assms(1) by (simp_all add: driver_inv_def)
  obtain q cs where f: "fd' = set_hq 1 q fd" "w' = logs cs w" "io_inv q" "\<And>rq. occupancy rq q = 0"
    "\<And>rq. tally (start_weight rq) cs = - occupancy rq (hq fd 1)"
    using fail_io_requests_spec [OF d assms(2) False] by metis
  show ?thesis unfolding f(1) using assms(1)
    by (intro driver_inv_set_io [OF assms(1) f(3)]) (simp add: f driver_inv_def)
qed

lemma driver_inv_create_io_queue:
  assumes "driver_inv fd w" "openflash_create_io_queue E fd w = Some (ret, fd', w')"
  shows "driver_inv fd' w'"
proof (rule driver_inv_admin_frame [OF assms(1) create_io_queue_frame [OF assms(2)]])
  show "fd_queues fd \<noteq> []" using assms(1) by (auto simp: driver_inv_def)
qed

lemma driver_inv_reset_controller:
  assumes "driver_inv fd w" "openflash_reset_controller E fd w = Some (ret, fd', w')"
  shows "driver_inv fd' w'"
proof -
  define a where "a = (hq fd 0)\<lparr>hq_sq_tail := 0, hq_cq_head := 0, hq_cq_phase := 1\<rparr>"
  define q where "q = (hq fd 1)\<lparr>hq_sq_tail := 0, hq_cq_head := 0, hq_cq_phase := 1\<rparr>"
  define fd1 where "fd1 = set_hq 1 q (set_hq 0 a fd)"
  obtain m w1 w2 ready w3 where w: "writel E OPENFLASH_CTRL_RESET OPENFLASH_REG_CONTROL (w\<lparr>w_mem := m\<rparr>) = Some w1"
      "w2 = snd (readl E OPENFLASH_REG_STATUS w1)" "start_controller E a w2 = Some (ready, w3)"
    and r: "fd' = fd1 \<and> w' = w3 \<or> openflash_create_io_queue E fd1 w3 = Some (ret, fd', w')"
    using assms(2) unfolding openflash_reset_controller_def Let_def a_def [symmetric] q_def [symmetric] fd1_def [symmetric]
    by (auto simp: bind_eq_Some_conv split: if_splits prod.splits)
  obtain cs where l: "w_log w3 = w_log w2 @ cs" "list_all admin_call cs" using start_controller_log [OF w(3)] by blast
  have "w_log w2 = w_log w @ [Writel OPENFLASH_REG_CONTROL OPENFLASH_CTRL_RESET]"
    using writel_log [OF w(1)] w(2) read_log(2) [of E OPENFLASH_REG_STATUS w1] by (metis prod.collapse world.select_convs(3) world.surjective world.update_convs(1))
  then have e: "extends not_rq w w3" using l admin_not_rq by (auto simp: extends_def list_all_iff)
  have "io_inv q" "cq_ok a" "occupancy rq q = occupancy rq (hq fd 1)" for rq
    using assms(1) by (auto simp: driver_inv_def io_inv_def cq_ok_def a_def q_def occupancy_def)
  then have "driver_inv fd1 w" using assms(1) by (simp add: driver_inv_def fd1_def set_hq_def)
  then have "driver_inv fd1 w3" using e by (rule driver_inv_log)
  then show ?thesis using r driver_inv_create_io_queue [of fd1 w3 E ret fd' w'] by blast
qed

lemma driver_inv_take_io_irqs:
  "driver_inv fd w \<Longrightarrow> take_io_irqs E n fd w = Some (fd', w') \<Longrightarrow> driver_inv fd' w'"
proof (induction n arbitrary: fd w)
  case 0
  then show ?case by simp
next
  case (Suc n)
  then obtain r fd1 w1 where "openflash_io_irq E fd w = Some (r, fd1, w1)" "take_io_irqs E n fd1 w1 = Some (fd', w')"
    by (auto simp: bind_eq_Some_conv)
  then show ?case using Suc.IH [of fd1 w1] driver_inv_io_irq [OF Suc.prems(1), of E r fd1 w1] by simp
qed

lemma driver_inv_freeze:
  assumes "driver_inv fd w" "blk_mq_freeze_queue E fd w = Some (fd', w')"
  shows "driver_inv fd' w'"
proof -
  obtain w1 where "take_io_irqs E (e_irqs E (w_log w)) fd w = Some (fd', w1)" "w' = log Freeze_queue w1"
    using assms(2) by (auto simp: blk_mq_freeze_queue_def bind_eq_Some_conv split: if_splits)
  then show ?thesis using driver_inv_log [OF driver_inv_take_io_irqs [OF assms(1)]]
    by (simp add: ext_intros)
qed

lemma driver_inv_flags: "driver_inv (fd\<lparr>fd_reset_pending := b\<rparr>) w = driver_inv fd w"
  by (simp add: driver_inv_def)

lemma driver_inv_reset_work:
  assumes "driver_inv fd w" "openflash_reset_work E fd w = Some (fd', w')"
  shows "driver_inv fd' w'"
proof (cases "fd_disk fd")
  case False
  then show ?thesis using assms by (auto simp: openflash_reset_work_def driver_inv_flags)
next
  case True
  obtain fd1 w1 where f: "blk_mq_freeze_queue E fd w = Some (fd1, w1)"
    using assms(2) True by (cases "blk_mq_freeze_queue E fd w") (auto simp: openflash_reset_work_def)
  obtain fd2 w2 where g: "openflash_fail_io_requests BLK_STS_TIMEOUT fd1 w1 = (fd2, w2)" by fastforce
  obtain ret fd3 w3 where s: "blk_mq_freeze_queue E fd w = Some (fd1, w1)"
    "openflash_fail_io_requests BLK_STS_TIMEOUT fd1 w1 = (fd2, w2)"
    "openflash_reset_controller E fd2 w2 = Some (ret, fd3, w3)"
    "fd' = fd3\<lparr>fd_reset_pending := False\<rparr>" "w' = log Unfreeze_queue w3"
    using assms(2) True f g by (auto simp: openflash_reset_work_def bind_eq_Some_conv Let_def)
  have "driver_inv fd3 w3"
    by (rule driver_inv_reset_controller [OF driver_inv_fail [OF driver_inv_freeze [OF assms(1) s(1)] s(2)] s(3)])
  then have "driver_inv fd3 w'" by (rule driver_inv_log) (simp add: s ext_intros)
  then show ?thesis by (simp add: s driver_inv_flags)
qed

end
