(* ===== verification/Board_Ring.thy ===== *)
theory Board_Ring
  imports Controller_Spec Host_Inv
begin

text \<open>
  The driver and the QEMU controller on one board: the device's handlers answer the driver's register
  accesses and both use the same RAM.  This theory follows one command through a pair of rings, from the slot
  the driver fills to the completion entry it finds.
\<close>

section \<open>The device's completion cursor\<close>

definition dev_cursor_ok :: "OpenFlashQueue \<Rightarrow> bool" where
  "dev_cursor_ok q \<longleftrightarrow> unat (q_cq_tail q) < unat (q_depth q) \<and> unat (q_depth q) \<le> 4096 \<and> unat (q_cq_phase q) < 2"

lemma unat_phase_xor: "unat (x :: u8) < 2 \<Longrightarrow> unat (x XOR 1) = 1 - unat x"
  using unat_phase_flip [of x] by (simp add: OPENFLASH_CQE_PHASE_def)

interpretation dev_ring: phase_ring dev_cursor_ok "\<lambda>q. unat (q_depth q)" "\<lambda>q. unat (q_cq_tail q)"
  "\<lambda>q. unat (q_cq_phase q)" advance_queue
proof
  fix q assume q: "dev_cursor_ok q"
  have d: "0 < unat (q_depth q)" "unat (q_depth q) \<le> 65536" using q by (auto simp: dev_cursor_ok_def)
  have s: "unat (q_cq_tail (advance_queue q)) = (unat (q_cq_tail q) + 1) mod unat (q_depth q)"
    by (simp add: advance_queue_def unat_ring_succ [OF d])
  show "unat (q_cq_tail (advance_queue q)) = (unat (q_cq_tail q) + 1) mod unat (q_depth q)" by (rule s)
  show p: "unat (q_cq_phase (advance_queue q)) =
      (if unat (q_cq_tail (advance_queue q)) = 0 then 1 - unat (q_cq_phase q) else unat (q_cq_phase q))"
    using q by (simp add: advance_queue_def dev_cursor_ok_def unat_phase_xor unat_eq_zero)
  have "unat (q_depth (advance_queue q)) = unat (q_depth q)" by (simp add: advance_queue_def)
  then show "dev_cursor_ok (advance_queue q)" "unat (q_depth (advance_queue q)) = unat (q_depth q)"
    using q s p d(1) unfolding dev_cursor_ok_def by (simp_all add: less_imp_diff_less)
  show "unat (q_cq_tail q) < unat (q_depth q)" "unat (q_cq_phase q) < 2" using q by (simp_all add: dev_cursor_ok_def)
qed

section \<open>The board\<close>

text \<open>The environment of the driver when the device behind BAR0 is the QEMU controller and both share one RAM:
  a register write runs the device's handler to completion.\<close>

type_synonym board = "host \<times> OpenFlashState"

definition board_write :: "u64 \<Rightarrow> u64 \<Rightarrow> mem \<Rightarrow> board \<Rightarrow> (mem \<times> board) option" where
  "board_write addr v m b = (case openflash_mmio_write ram_platform addr v ((fst b)\<lparr>h_ram := m\<rparr>) (snd b) of
     Some (Inr (h, s)) \<Rightarrow> Some (h_ram h, (h, s))
   | _ \<Rightarrow> None)"

definition board_read :: "u64 \<Rightarrow> mem \<Rightarrow> board \<Rightarrow> u64 \<times> mem \<times> board" where
  "board_read addr m b = (openflash_mmio_read (snd b) addr, m, b)"

definition on_board :: "board env \<Rightarrow> bool" where
  "on_board E \<longleftrightarrow> bar_write E = board_write \<and> bar_read E = board_read"

abbreviation w_state :: "board world \<Rightarrow> OpenFlashState" where "w_state w \<equiv> snd (w_dev w)"
abbreviation w_host :: "board world \<Rightarrow> host" where "w_host w \<equiv> (fst (w_dev w))\<lparr>h_ram := w_mem w\<rparr>"

lemma board_writel:
  assumes "on_board E" "openflash_mmio_write ram_platform a (ucast v) (w_host w) (w_state w) = Some (Inr (h, s))"
  shows "writel E v a w = Some (log (Writel a v) (w\<lparr>w_mem := h_ram h, w_dev := (h, s)\<rparr>))"
  using assms by (simp add: writel_def on_board_def board_write_def)

lemma board_readl:
  assumes "on_board E"
  shows "readl E a w = (ucast (openflash_mmio_read (w_state w) a), w)" "readq E a w = (openflash_mmio_read (w_state w) a, w)"
  using assms by (simp_all add: readl_def readq_def on_board_def board_read_def)

text \<open>A driver queue and the device queue are the same rings, and the device has executed everything the
  driver has submitted and posted \<open>n\<close> completions.\<close>

definition queue_sync :: "openflash_queue \<Rightarrow> OpenFlashQueue \<Rightarrow> nat \<Rightarrow> bool" where
  "queue_sync q dq n \<longleftrightarrow> q_enabled dq \<and> q_sq_addr dq = hq_sq_dma q \<and> q_cq_addr dq = hq_cq_dma q \<and>
     q_depth dq = ucast (hq_depth q) \<and> q_sq_head dq = hq_sq_tail q \<and> unat (hq_sq_tail q) < unat (hq_depth q) \<and>
     1 < unat (hq_depth q) \<and> unat (hq_depth q) \<le> 4096 \<and>
     unat (q_cq_tail dq) = ring_slot (unat (hq_depth q)) n \<and> unat (q_cq_phase dq) = ring_phase (unat (hq_depth q)) n"

lemma queue_sync_cursor:
  assumes "queue_sync q dq n"
  shows "dev_cursor_ok dq" "unat (q_depth dq) = unat (hq_depth q)"
  using assms ring_phase_bound [of _ n] by (auto simp: queue_sync_def dev_cursor_ok_def ring_slot_def)

lemma ring_succ_next_index: "ring_succ i (ucast d) = next_index i d"
  by (simp add: ring_succ_def next_index_def)

lemma queue_sync_advance:
  assumes "queue_sync q dq n"
  shows "queue_sync (q\<lparr>hq_sq_tail := next_index (hq_sq_tail q) (hq_depth q)\<rparr>) (advance_queue dq) (Suc n)"
proof -
  have d: "unat (q_depth dq) = unat (hq_depth q)" by (rule queue_sync_cursor [OF assms])
  have s: "unat (q_cq_tail (advance_queue dq)) = ring_slot (unat (hq_depth q)) (Suc n)"
    "unat (q_cq_phase (advance_queue dq)) = ring_phase (unat (hq_depth q)) (Suc n)"
    using dev_ring.steps_position [OF queue_sync_cursor(1) [OF assms], of n 1] assms d by (simp_all add: queue_sync_def)
  have f: "q_enabled (advance_queue dq) = q_enabled dq" "q_sq_addr (advance_queue dq) = q_sq_addr dq"
    "q_cq_addr (advance_queue dq) = q_cq_addr dq" "q_depth (advance_queue dq) = q_depth dq"
    "q_sq_head (advance_queue dq) = ring_succ (q_sq_head dq) (q_depth dq)"
    by (simp_all add: advance_queue_def)
  show ?thesis using assms s by (simp add: queue_sync_def f ring_succ_next_index unat_next_index)
qed

section \<open>One command through a ring\<close>

definition posted :: "openflash_command \<Rightarrow> u16 \<Rightarrow> u64 \<Rightarrow> openflash_queue \<Rightarrow> nat \<Rightarrow> openflash_completion" where
  "posted c st r q n = \<lparr>oe_result = r, oe_user_data = oc_user_data c, oe_sq_head = next_index (hq_sq_tail q) (hq_depth q),
     oe_cid = oc_cid c, oe_status = st, oe_flags = of_nat (ring_phase (unat (hq_depth q)) n), oe_reserved = (0, 0, 0, 0, 0)\<rparr>"

definition cq_slot :: "openflash_queue \<Rightarrow> nat \<Rightarrow> u64" where
  "cq_slot q n = hq_cq_dma q + of_nat (ring_slot (unat (hq_depth q)) n) * 64"

definition post_host :: "openflash_queue \<Rightarrow> u16 \<Rightarrow> nat \<Rightarrow> openflash_completion \<Rightarrow> host \<Rightarrow> host" where
  "post_host q v n e h = (let h' = h\<lparr>h_ram := mem_store (h_ram h) (cq_slot q n) (enc_completion e)\<rparr> in
     if h_msix h' then h'\<lparr>h_irqs := h_irqs h' @ [v]\<rparr> else h')"

lemma h_ram_post_host: "h_ram (post_host q v n e h) = mem_store (h_ram h) (cq_slot q n) (enc_completion e)"
  by (simp add: post_host_def Let_def)

lemma next_index_differs:
  assumes "1 < unat d" "unat i < unat d"
  shows "next_index i d \<noteq> i"
proof -
  have "(unat i + 1) mod unat d \<noteq> unat i" using assms by (cases "unat i + 1 = unat d") auto
  then show ?thesis using unat_next_index [of d i] assms(1) by auto
qed

lemma queue_sync_completion:
  assumes "queue_sync q dq n"
  shows "enc_OpenFlashCompletion (completion_for (dev_command c) st r dq) = enc_completion (posted c st r q n)"
    "q_cq_addr dq + ucast (q_cq_tail dq) * 64 = cq_slot q n"
proof -
  have "ucast (q_cq_phase dq) = (of_nat (ring_phase (unat (hq_depth q)) n) :: u16)"
    "ucast (q_cq_tail dq) = (of_nat (ring_slot (unat (hq_depth q)) n) :: u64)"
    using assms unfolding queue_sync_def by (metis of_nat_unat)+
  then show "enc_OpenFlashCompletion (completion_for (dev_command c) st r dq) = enc_completion (posted c st r q n)"
    "q_cq_addr dq + ucast (q_cq_tail dq) * 64 = cq_slot q n"
    using assms by (simp_all add: enc_OpenFlashCompletion_eq completion_for_def host_completion_def posted_def queue_sync_def
        ring_succ_next_index cq_slot_def)
qed

lemma fetch_synced:
  assumes "queue_sync q dq n" "mem_load (h_ram h) (hq_sq_dma q + ucast (hq_sq_tail q) * 64) 64 = enc_command c"
  shows "fetch_cmd ram_platform h dq = dev_command c"
  using assms by (simp add: fetch_cmd_def queue_sync_def dec_OpenFlashCommand_enc)

lemma process_sq_one:
  assumes "unat qid < OF_MAX_QUEUES" "s_status s AND OF_STATUS_READY \<noteq> 0" "queue_sync q (queue_of s qid) n"
    and "mem_load (h_ram h) (hq_sq_dma q + ucast (hq_sq_tail q) * 64) 64 = enc_command c"
    and "openflash_execute ram_platform (dev_command c) h s = Inr (st, r, h1, s1)"
    and "queue_of s1 qid = queue_of s qid" "length (s_queues s1) = OF_MAX_QUEUES"
  shows "openflash_process_sq ram_platform qid (next_index (hq_sq_tail q) (hq_depth q)) h s =
    Some (Inr (post_host q (q_vector (queue_of s qid)) n (posted c st r q n) h1, upd_queue qid advance_queue s1))"
proof -
  let ?dq = "queue_of s qid" and ?tail = "next_index (hq_sq_tail q) (hq_depth q)"
  let ?m = "mem_store (h_ram h1) (cq_slot q n) (enc_completion (posted c st r q n))"
  have d: "unat (q_depth ?dq) = unat (hq_depth q)" "1 < unat (hq_depth q)" "unat (hq_sq_tail q) < unat (hq_depth q)"
    "q_sq_head ?dq = hq_sq_tail q" "q_depth ?dq = ucast (hq_depth q)"
    using assms(3) queue_sync_cursor(2) [OF assms(3)] by (auto simp: queue_sync_def)
  have "unat ?tail < unat (hq_depth q)" using d(2) by (simp add: unat_next_index)
  then have o: "doorbell_open s qid ?tail" using assms(2,3) d(1) by (simp add: doorbell_open_def queue_sync_def)
  have f: "fetch_cmd ram_platform h ?dq = dev_command c" by (rule fetch_synced [OF assms(3,4)])
  have "q_depth (queue_of s1 qid) \<noteq> 0" using d(1,2) assms(6) by auto
  then have p: "process_one ram_platform qid h s = Inr (h1\<lparr>h_ram := ?m\<rparr>, upd_queue qid advance_queue s1)"
    using process_one_eq [of ram_platform h s qid st r h1 s1] assms(1,5-7) f queue_sync_completion [OF assms(3)] by simp
  have q: "queue_of (upd_queue qid advance_queue s1) qid = advance_queue ?dq"
    using queue_of_upd_queue [of qid s1 advance_queue qid] assms(1,6,7) by simp
  have "q_sq_head (advance_queue ?dq) = ?tail" "q_vector (advance_queue ?dq) = q_vector ?dq"
    by (simp_all add: advance_queue_def d ring_succ_next_index)
  then have "process_loop ram_platform qid ?tail (h1\<lparr>h_ram := ?m\<rparr>) (upd_queue qid advance_queue s1) =
      Some (Inr (h1\<lparr>h_ram := ?m\<rparr>, upd_queue qid advance_queue s1))"
    by (subst process_loop.simps) (simp add: q)
  then have "process_loop ram_platform qid ?tail h s = Some (Inr (h1\<lparr>h_ram := ?m\<rparr>, upd_queue qid advance_queue s1))"
    using next_index_differs [OF d(2,3)] d(4) p by (subst process_loop.simps) simp
  then show ?thesis
    using \<open>q_vector (advance_queue ?dq) = q_vector ?dq\<close>
    by (simp add: process_sq_open [OF assms(1) o] q post_host_def)
qed

text \<open>Posting the entry turns a ring of \<open>n\<close> entries into one of \<open>n + 1\<close>.\<close>

lemma ring_holds_post:
  assumes "ring_holds m q n" "0 < unat (hq_depth q)" "oe_flags e AND OPENFLASH_CQE_PHASE = of_nat (ring_phase (unat (hq_depth q)) n)"
  shows "ring_holds (mem_store m (cq_slot q n) (enc_completion e)) q (Suc n)"
proof -
  let ?d = "unat (hq_depth q)" and ?m = "mem_store m (cq_slot q n) (enc_completion e)"
  have b: "ring_slot ?d n < ?d" using assms(2) by (simp add: ring_slot_def)
  have "cq_flag ?m q i = ring_flag ?d (Suc n) i" if i: "i < ?d" for i
  proof (cases "i = ring_slot ?d n")
    case True
    have "mem_load ?m (hq_cq_dma q + of_nat i * 64) 64 = enc_completion e"
      using mem_load_store_same [of "enc_completion e" m "cq_slot q n"] by (simp add: True cq_slot_def)
    then have "cq_flag ?m q i = unat (of_nat (ring_phase ?d n) :: u16)" using assms(3) by (simp add: cq_flag_def dec_enc_completion)
    also have "\<dots> = ring_phase ?d n" using ring_phase_bound [of ?d n] by (simp add: unat_of_nat)
    finally show ?thesis using ring_flag_Suc [OF i, of n] True by simp
  next
    case False
    have "?d * 64 < 2 ^ 64" using unat_u16_lt [of "hq_depth q"] by simp
    then have "apart (hq_cq_dma q + of_nat i * of_nat 64) 64 (hq_cq_dma q + of_nat (ring_slot ?d n) * of_nat 64) 64"
      using array_slots_apart [OF False i b] by blast
    then have "mem_load ?m (hq_cq_dma q + of_nat i * 64) 64 = mem_load m (hq_cq_dma q + of_nat i * 64) 64"
      by (simp add: cq_slot_def mem_load_store_apart)
    then show ?thesis using assms(1) i False ring_flag_Suc [OF i, of n] by (simp add: ring_holds_def cq_flag_def)
  qed
  then show ?thesis by (simp add: ring_holds_def)
qed

lemma posted_flags: "oe_flags (posted c st r q n) AND OPENFLASH_CQE_PHASE = of_nat (ring_phase (unat (hq_depth q)) n)"
proof -
  have "ring_phase (unat (hq_depth q)) n = 0 \<or> ring_phase (unat (hq_depth q)) n = 1"
    using ring_phase_bound [of "unat (hq_depth q)" n] by linarith
  then show ?thesis by (auto simp: posted_def OPENFLASH_CQE_PHASE_def)
qed

end
