(* ===== verification/Board_Admin.thy ===== *)
theory Board_Admin
  imports Board_Ring
begin

text \<open>
  Admin commands of the driver on the QEMU controller: doorbells as the device decodes them, the wait for the
  completion interrupt, and the result the caller gets.
\<close>

section \<open>Widening\<close>

lemma ucast_up_down [simp]:
  "(ucast (ucast (x :: u32) :: u64) :: u32) = x" "(ucast (ucast (ucast (y :: u16) :: u32) :: u64) :: u16) = y"
  by (rule bit_word_eqI; auto simp: bit_simps)+

section \<open>Doorbells\<close>

lemma two_queues: "unat (qid :: u16) < OF_MAX_QUEUES \<Longrightarrow> qid = 0 \<or> qid = 1"
  by (auto simp: OF_MAX_QUEUES_def word_unat_eq_iff less_2_cases_iff)

lemma sq_doorbell:
  assumes "unat qid < OF_MAX_QUEUES"
  shows "openflash_mmio_write P (OPENFLASH_SQ_TAIL_DB qid) v h s = openflash_process_sq P qid (ucast v) h s"
proof -
  have "qid = 0 \<or> qid = 1" by (rule two_queues [OF assms])
  then have "is_sq_doorbell (OPENFLASH_SQ_TAIL_DB qid) \<and> doorbell_qid (OPENFLASH_SQ_TAIL_DB qid) = qid"
    by (auto simp: of_consts)
  then show ?thesis using mmio_write_doorbell [of "OPENFLASH_SQ_TAIL_DB qid" P v h s] by simp
qed

lemma cq_doorbell:
  assumes "unat qid < OF_MAX_QUEUES"
  shows "openflash_mmio_write P (OPENFLASH_CQ_HEAD_DB qid) v h s =
    Some (Inr (h, if v < ucast (q_depth (queue_of s qid)) then upd_queue qid (\<lambda>q. q\<lparr>q_cq_head := ucast v\<rparr>) s else s))"
proof (cases "qid = 0")
  case True
  have "OPENFLASH_CQ_HEAD_DB 0 = 0x1004" by (simp add: of_consts)
  then show ?thesis unfolding True openflash_mmio_write_def reg_simps by (simp add: OF_MAX_QUEUES_def)
next
  case False
  then have q: "qid = 1" using two_queues [OF assms] by simp
  have "OPENFLASH_CQ_HEAD_DB 1 = 0x100c" by (simp add: of_consts)
  then show ?thesis unfolding q openflash_mmio_write_def reg_simps by (simp add: OF_MAX_QUEUES_def)
qed

section \<open>Admin commands on the board\<close>

text \<open>The admin queue of driver and device agree; the driver has taken \<open>c\<close> of the \<open>n\<close> completions posted.\<close>

definition admin_state :: "openflash_dev \<Rightarrow> board world \<Rightarrow> nat \<Rightarrow> nat \<Rightarrow> bool" where
  "admin_state fd w c n \<longleftrightarrow> length (fd_queues fd) = 2 \<and> hq_qid (hq fd 0) = 0 \<and> state_ok (w_state w) \<and>
     s_status (w_state w) AND OF_STATUS_READY \<noteq> 0 \<and> queue_sync (hq fd 0) (queue_of (w_state w) 0) n \<and>
     cursor_at (hq fd 0) c \<and> ring_holds (w_mem w) (hq fd 0) n \<and>
     apart (hq_sq_dma (hq fd 0)) (unat (hq_depth (hq fd 0)) * 64) (hq_cq_dma (hq fd 0)) (unat (hq_depth (hq fd 0)) * 64)"

lemma cursor_cq_ok: "cursor_at q c \<Longrightarrow> 0 < unat (hq_depth q) \<Longrightarrow> cq_ok q"
  using ring_phase_bound by (simp add: cursor_at_def cq_ok_def ring_slot_def)

lemma queue_sync_depth: "queue_sync q dq n \<Longrightarrow> 0 < unat (hq_depth q)"
  by (simp add: queue_sync_def)

lemma board_status:
  "on_board E \<Longrightarrow> readl E OPENFLASH_REG_STATUS w = (s_status (w_state w), w)"
  by (simp add: board_readl openflash_mmio_read_def of_consts)

lemma ready_bits: "OPENFLASH_STATUS_READY = OF_STATUS_READY"
  by (simp add: of_consts)

lemma set_hq_same: "set_hq i (hq fd i) fd = fd"
  by (simp add: set_hq_def)

lemma irq_idle:
  assumes "on_board E" "admin_state fd w n n"
  shows "openflash_irq E fd w = Some (IRQ_NONE, fd, w)"
proof -
  have "cq_ok (hq fd 0)" using assms(2) cursor_cq_ok queue_sync_depth by (auto simp: admin_state_def)
  then have "drain_admin_loop (w_mem w) (hq fd 0) 0 = Some (hq fd 0, 0)"
    using admin_drain_takes [of "hq fd 0" n "w_mem w" n] assms(2) by (simp add: admin_state_def)
  then show ?thesis
    using assms(2) by (simp add: openflash_irq_def board_status [OF assms(1)] openflash_drain_admin_cq_def ready_bits
        set_hq_same admin_state_def)
qed

lemma take_irqs_idle: "on_board E \<Longrightarrow> admin_state fd w n n \<Longrightarrow> take_irqs E k fd w = Some (fd, w)"
  by (induction k) (simp_all add: irq_idle)

lemma queue_sync_cong:
  assumes "queue_sync q dq n" "ring_of q' = ring_of q" "hq_sq_tail q' = hq_sq_tail q"
    "dq' = dq\<lparr>q_cq_head := x\<rparr>"
  shows "queue_sync q' dq' n"
  using assms by (simp add: queue_sync_def ring_of_def)

lemma ring_holds_cong: "hq_cq_dma q' = hq_cq_dma q \<Longrightarrow> hq_depth q' = hq_depth q \<Longrightarrow> ring_holds m q' n = ring_holds m q n"
  by (simp add: ring_holds_def cq_flag_def)

lemma cursor_at_step:
  assumes "cq_ok q" "cursor_at q c"
  shows "cursor_at (admin_step m q) (Suc c)" "cursor_at (io_step m q) (Suc c)"
  using admin_ring.steps_position [OF assms(1), of c 1 m] io_ring.steps_position [OF assms(1), of c 1 m] assms(2)
  by (simp_all add: cursor_at_def)

lemma cq_head_write:
  assumes "on_board E" "unat qid < OF_MAX_QUEUES" "unat (cqh :: u16) < unat (q_depth (queue_of (w_state w) qid))"
  shows "writel E (ucast cqh) (OPENFLASH_CQ_HEAD_DB qid) w = Some (log (Writel (OPENFLASH_CQ_HEAD_DB qid) (ucast cqh))
    (w\<lparr>w_dev := (w_host w, upd_queue qid (\<lambda>q. q\<lparr>q_cq_head := cqh\<rparr>) (w_state w))\<rparr>))"
proof -
  let ?v = "ucast (ucast cqh :: u32) :: u64"
  have "?v < ucast (q_depth (queue_of (w_state w) qid))" using assms(3) by (simp add: word_less_nat_alt)
  moreover have "(ucast ?v :: u16) = cqh" by simp
  ultimately have "openflash_mmio_write ram_platform (OPENFLASH_CQ_HEAD_DB qid) ?v (w_host w) (w_state w) =
      Some (Inr (w_host w, upd_queue qid (\<lambda>q. q\<lparr>q_cq_head := cqh\<rparr>) (w_state w)))"
    by (simp only: cq_doorbell [OF assms(2)] if_True)
  from board_writel [OF assms(1) this] show ?thesis by simp
qed

lemma irq_takes_one:
  assumes "on_board E" "admin_state fd w n (Suc n)"
  obtains w' x where "openflash_irq E fd w = Some (IRQ_HANDLED, set_hq 0 (admin_step (w_mem w) (hq fd 0)) fd, w')"
    "admin_state (set_hq 0 (admin_step (w_mem w) (hq fd 0)) fd) w' (Suc n) (Suc n)" "w_mem w' = w_mem w"
    "w_state w' = upd_queue 0 (\<lambda>q. q\<lparr>q_cq_head := x\<rparr>) (w_state w)" "fst (w_dev w') = w_host w"
proof -
  let ?q = "hq fd 0" and ?q' = "admin_step (w_mem w) (hq fd 0)" and ?s = "w_state w"
  let ?w = "log (Writel (OPENFLASH_CQ_HEAD_DB 0) (ucast (hq_cq_head ?q')))
    (w\<lparr>w_dev := (w_host w, upd_queue 0 (\<lambda>q. q\<lparr>q_cq_head := hq_cq_head ?q'\<rparr>) ?s)\<rparr>)"
  have a: "length (fd_queues fd) = 2" "hq_qid ?q = 0" "state_ok ?s" "queue_sync ?q (queue_of ?s 0) (Suc n)" "cursor_at ?q n"
    "ring_holds (w_mem w) ?q (Suc n)" using assms(2) by (simp_all add: admin_state_def)
  have ok: "cq_ok ?q" by (rule cursor_cq_ok [OF a(5) queue_sync_depth [OF a(4)]])
  have c: "cursor_at ?q' (Suc n)" by (rule cursor_at_step [OF ok a(5)])
  have d: "drain_admin_loop (w_mem w) ?q 0 = Some (?q', 1)"
    using admin_drain_takes [OF ok a(5,6)] queue_sync_depth [OF a(4)] by simp
  have z: "unat (0 :: u16) < OF_MAX_QUEUES" by (simp add: OF_MAX_QUEUES_def)
  have "unat (hq_cq_head ?q') < unat (q_depth (queue_of ?s 0))"
    using c queue_sync_cursor(2) [OF a(4)] queue_sync_depth [OF a(4)] by (simp add: cursor_at_def ring_slot_def)
  then have wr: "writel E (ucast (hq_cq_head ?q')) (OPENFLASH_CQ_HEAD_DB 0) w = Some ?w" by (rule cq_head_write [OF assms(1) z])
  have irq: "openflash_irq E fd w = Some (IRQ_HANDLED, set_hq 0 ?q' fd, ?w)"
    using assms(2) a(2) by (simp add: openflash_irq_def board_status [OF assms(1)] ready_bits openflash_drain_admin_cq_def d wr
        admin_state_def del: log_simps)
  have q0: "queue_of (upd_queue 0 f ?s) 0 = f (queue_of ?s 0)" for f using queue_of_admin_update(1) [OF a(3)] by simp
  have "state_ok (upd_queue 0 (\<lambda>q. q\<lparr>q_cq_head := hq_cq_head ?q'\<rparr>) ?s)" by (rule state_ok_register_updates(5) [OF a(3) z])
  moreover have "queue_sync ?q' ((queue_of ?s 0)\<lparr>q_cq_head := hq_cq_head ?q'\<rparr>) (Suc n)"
    by (rule queue_sync_cong [OF a(4)]) (simp_all add: ring_of_def)
  ultimately have "admin_state (set_hq 0 ?q' fd) ?w (Suc n) (Suc n)"
    using assms(2) c ring_holds_cong [of ?q' ?q] by (simp add: admin_state_def set_hq_def q0 [simplified])
  then show thesis by (rule that [OF irq]) simp_all
qed

text \<open>Memory other than the two rings of a queue.\<close>

definition rings_only :: "openflash_queue \<Rightarrow> mem \<Rightarrow> mem \<Rightarrow> bool" where
  "rings_only q m m' \<longleftrightarrow> (\<forall>a k. 0 < k \<longrightarrow> apart a k (hq_sq_dma q) (unat (hq_depth q) * 64) \<longrightarrow>
     apart a k (hq_cq_dma q) (unat (hq_depth q) * 64) \<longrightarrow> mem_load m' a k = mem_load m a k)"

lemma mem_load_store_slot:
  assumes "apart a k base (d * 64)" "i < d" "length bs = 64" "0 < k"
  shows "mem_load (mem_store m (base + of_nat i * 64) bs) a k = mem_load m a k"
proof -
  have "i * 64 + length bs \<le> d * 64" using assms(2,3) by simp
  moreover have "bs \<noteq> []" using assms(3) by auto
  ultimately show ?thesis using mem_load_store_sub [OF assms(1), of 0 k "i * 64" bs m] assms(4) by simp
qed

lemma ring_holds_frame:
  assumes "mem_load m' (hq_cq_dma q) (unat (hq_depth q) * 64) = mem_load m (hq_cq_dma q) (unat (hq_depth q) * 64)"
  shows "ring_holds m' q n = ring_holds m q n"
proof -
  have "mem_load m' (hq_cq_dma q + of_nat i * 64) 64 = mem_load m (hq_cq_dma q + of_nat i * 64) 64"
    if "i < unat (hq_depth q)" for i
    using mem_load_slice [of "i * 64" 64 "unat (hq_depth q) * 64" _ "hq_cq_dma q"] that assms by simp
  then show ?thesis by (simp add: ring_holds_def cq_flag_def)
qed

lemma mem_load_store_sq:
  assumes "apart a k (hq_sq_dma q) (unat (hq_depth q) * 64)" "unat (hq_sq_tail q) < unat (hq_depth q)" "length bs = 64" "0 < k"
  shows "mem_load (mem_store m (io_slot q) bs) a k = mem_load m a k"
  using mem_load_store_slot [OF assms, of m] by simp

lemma rings_only_stores:
  assumes "unat (hq_sq_tail q) < unat (hq_depth q)" "length bs = 64" "length cs = 64"
  shows "rings_only q m (mem_store (mem_store m (hq_sq_dma q + ucast (hq_sq_tail q) * 64) bs) (cq_slot q n) cs)"
proof -
  have "ring_slot (unat (hq_depth q)) n < unat (hq_depth q)" using assms(1) by (simp add: ring_slot_def)
  then show ?thesis using assms by (simp add: rings_only_def cq_slot_def mem_load_store_slot mem_load_store_sq)
qed

lemma cq_entry_slot:
  assumes "cursor_at q n"
  shows "cq_entry m q = dec_completion (mem_load m (cq_slot q n) 64)"
proof -
  have "ucast (hq_cq_head q) = (of_nat (ring_slot (unat (hq_depth q)) n) :: u64)"
    using assms unfolding cursor_at_def by (metis of_nat_unat)
  then show ?thesis by (simp add: cq_entry_def cq_slot_def)
qed

lemma cq_entry_posted:
  assumes "cursor_at q n"
  shows "cq_entry (mem_store m (cq_slot q n) (enc_completion e)) q = e"
  using mem_load_store_same [of "enc_completion e" m "cq_slot q n"] by (simp add: cq_entry_slot [OF assms] dec_enc_completion)

text \<open>The submission doorbell of queue \<open>i\<close> after the driver has filled the slot at its tail.\<close>

lemma sq_doorbell_write:
  assumes "on_board E" "unat qid < OF_MAX_QUEUES" "s_status (w_state w) AND OF_STATUS_READY \<noteq> 0"
    and "queue_sync q (queue_of (w_state w) qid) n" "mem_load (w_mem w) (io_slot q) 64 = enc_command c"
    and "openflash_execute ram_platform (dev_command c) (w_host w) (w_state w) = Inr (st, r, h1, s1)"
    and "queue_of s1 qid = queue_of (w_state w) qid" "length (s_queues s1) = OF_MAX_QUEUES"
  shows "writel E (ucast (next_index (hq_sq_tail q) (hq_depth q))) (OPENFLASH_SQ_TAIL_DB qid) w =
    Some (log (Writel (OPENFLASH_SQ_TAIL_DB qid) (ucast (next_index (hq_sq_tail q) (hq_depth q))))
      (w\<lparr>w_mem := mem_store (h_ram h1) (cq_slot q n) (enc_completion (posted c st r q n)),
        w_dev := (post_host q (q_vector (queue_of (w_state w) qid)) n (posted c st r q n) h1, upd_queue qid advance_queue s1)\<rparr>))"
proof -
  have "openflash_mmio_write ram_platform (OPENFLASH_SQ_TAIL_DB qid)
      (ucast (ucast (next_index (hq_sq_tail q) (hq_depth q)) :: u32)) (w_host w) (w_state w) =
    Some (Inr (post_host q (q_vector (queue_of (w_state w) qid)) n (posted c st r q n) h1, upd_queue qid advance_queue s1))"
    unfolding sq_doorbell [OF assms(2)] ucast_up_down using assms(5)
    by (intro process_sq_one [OF assms(2-4) _ assms(6-8)]) simp
  from board_writel [OF assms(1) this] show ?thesis by (simp add: h_ram_post_host)
qed

lemma state_ok_advance:
  assumes "state_ok s" "unat qid < OF_MAX_QUEUES"
  shows "state_ok (upd_queue qid advance_queue s)"
  using assms queues_ok_upd_queue [of s qid advance_queue] queue_ok_advance [OF queues_ok_nth [of s qid]]
  by (simp add: state_ok_def)

definition numbered :: "openflash_command \<Rightarrow> openflash_queue \<Rightarrow> openflash_command" where
  "numbered cmd q = cmd\<lparr>oc_qid := hq_qid q, oc_cid := snd (issue_cid q)\<rparr>"

lemma ring_holds_posted:
  assumes "ring_holds m q n" "mem_load m1 (hq_cq_dma q) (unat (hq_depth q) * 64) = mem_load m (hq_cq_dma q) (unat (hq_depth q) * 64)"
    "0 < unat (hq_depth q)"
  shows "ring_holds (mem_store m1 (cq_slot q n) (enc_completion (posted c st r q n))) q (Suc n)"
  using assms ring_holds_frame [of m1 q m n] ring_holds_post [OF _ _ posted_flags, of m1 q n] by simp

text \<open>What \<open>post_admin\<close> leaves: the numbered command in the slot at the tail, and the admin queue waiting for it.\<close>

definition waiting_queue :: "openflash_queue \<Rightarrow> openflash_queue" where
  "waiting_queue q = (fst (issue_cid q))\<lparr>hq_admin_done := 0, hq_admin_cid := snd (issue_cid q), hq_admin_error := 0,
     hq_admin_pending := True, hq_sq_tail := next_index (hq_sq_tail q) (hq_depth q)\<rparr>"

lemma waiting_queue_simps [simp]:
  "hq_sq_dma (waiting_queue q) = hq_sq_dma q" "hq_cq_dma (waiting_queue q) = hq_cq_dma q" "hq_depth (waiting_queue q) = hq_depth q"
  "hq_qid (waiting_queue q) = hq_qid q" "hq_cq_head (waiting_queue q) = hq_cq_head q" "hq_cq_phase (waiting_queue q) = hq_cq_phase q"
  "hq_sq_tail (waiting_queue q) = next_index (hq_sq_tail q) (hq_depth q)" "hq_admin_done (waiting_queue q) = 0"
  "hq_admin_cid (waiting_queue q) = snd (issue_cid q)" "hq_admin_pending (waiting_queue q)" "hq_admin_error (waiting_queue q) = 0"
  using issue_cid_keeps [of q "fst (issue_cid q)" "snd (issue_cid q)"] by (simp_all add: waiting_queue_def ring_of_def)

lemma post_admin_eq:
  "post_admin cmd fd w = (set_hq 0 (waiting_queue (hq fd 0)) fd,
     (log Mutex_lock w)\<lparr>w_mem := mem_store (w_mem w) (io_slot (hq fd 0)) (enc_command (numbered cmd (hq fd 0)))\<rparr>)"
  using issue_cid_keeps [of "hq fd 0" "fst (issue_cid (hq fd 0))" "snd (issue_cid (hq fd 0))"]
  by (simp add: post_admin_def Let_def case_prod_unfold numbered_def waiting_queue_def ring_of_def)

lemma queue_sync_waiting: "queue_sync q dq n \<Longrightarrow> queue_sync (waiting_queue q) (advance_queue dq) (Suc n)"
  using queue_sync_advance [of q dq n] by (simp add: queue_sync_def)

lemma admin_posts:
  assumes "on_board E" "admin_state fd w n n" "post_admin cmd fd w = (fd0, w0)"
    and x: "\<And>h. openflash_execute ram_platform (dev_command (numbered cmd (hq fd 0))) h (w_state w) = Inr (st, r, h, s1)"
    and s1: "queue_of s1 0 = queue_of (w_state w) 0" "state_ok s1" "s_status s1 = s_status (w_state w)"
  obtains w1 where "writel E (ucast (hq_sq_tail (hq fd0 0))) (OPENFLASH_SQ_TAIL_DB (hq_qid (hq fd0 0))) w0 = Some w1"
    "admin_state fd0 w1 n (Suc n)" "cq_entry (w_mem w1) (hq fd0 0) = posted (numbered cmd (hq fd 0)) st r (hq fd 0) n"
    "w_state w1 = upd_queue 0 advance_queue s1" "rings_only (hq fd 0) (w_mem w) (w_mem w1)"
    "(fst (w_dev w1))\<lparr>h_ram := m, h_irqs := l\<rparr> = (fst (w_dev w))\<lparr>h_ram := m, h_irqs := l\<rparr>"
proof -
  let ?q = "hq fd 0" and ?c = "numbered cmd (hq fd 0)"
  have a: "length (fd_queues fd) = 2" "hq_qid ?q = 0" "s_status (w_state w) AND OF_STATUS_READY \<noteq> 0"
    "queue_sync ?q (queue_of (w_state w) 0) n" "cursor_at ?q n" "ring_holds (w_mem w) ?q n"
    and ap: "apart (hq_sq_dma ?q) (unat (hq_depth ?q) * 64) (hq_cq_dma ?q) (unat (hq_depth ?q) * 64)"
    using assms(2) by (simp_all add: admin_state_def)
  have t: "unat (hq_sq_tail ?q) < unat (hq_depth ?q)" using a(4) by (simp add: queue_sync_def)
  have z: "unat (0 :: u16) < OF_MAX_QUEUES" by (simp add: OF_MAX_QUEUES_def)
  let ?mc = "mem_store (w_mem w) (io_slot ?q) (enc_command ?c)"
  let ?m = "mem_store ?mc (cq_slot ?q n) (enc_completion (posted ?c st r ?q n))"
  have p: "fd0 = set_hq 0 (waiting_queue ?q) fd" "w0 = (log Mutex_lock w)\<lparr>w_mem := ?mc\<rparr>"
    using assms(3) by (simp_all add: post_admin_eq)
  have q0: "hq fd0 0 = waiting_queue ?q" unfolding p(1) using a(1) by (simp add: hq_set_hq)
  define w1 where "w1 = log (Writel (OPENFLASH_SQ_TAIL_DB 0) (ucast (next_index (hq_sq_tail ?q) (hq_depth ?q))))
      (w0\<lparr>w_mem := ?m, w_dev := (post_host ?q (q_vector (queue_of (w_state w) 0)) n (posted ?c st r ?q n) (w_host w0),
        upd_queue 0 advance_queue s1)\<rparr>)"
  have wr: "writel E (ucast (hq_sq_tail (hq fd0 0))) (OPENFLASH_SQ_TAIL_DB (hq_qid (hq fd0 0))) w0 = Some w1"
    using sq_doorbell_write [OF assms(1) z, of w0 ?q n ?c st r "w_host w0" s1] a s1 x [of "w_host w0"] p(2)
      mem_load_store_same [of "enc_command ?c" "w_mem w" "io_slot ?q"]
    by (simp add: w1_def q0 state_ok_def queues_ok_def)
  have "mem_load ?mc (hq_cq_dma ?q) (unat (hq_depth ?q) * 64) = mem_load (w_mem w) (hq_cq_dma ?q) (unat (hq_depth ?q) * 64)"
    using mem_load_store_sq [of "hq_cq_dma ?q" "unat (hq_depth ?q) * 64" ?q] ap t by (simp add: apart_sym)
  then have rh: "ring_holds ?m ?q (Suc n)" using a(6) t by (intro ring_holds_posted [of "w_mem w"]) auto
  have qa: "queue_of (upd_queue 0 advance_queue s1) 0 = advance_queue (queue_of (w_state w) 0)"
    using queue_of_admin_update(1) [OF s1(2)] s1(1) by simp
  have ca: "cursor_at (waiting_queue ?q) n" using a(5) by (simp add: cursor_at_def)
  have st: "admin_state fd0 w1 n (Suc n)"
    unfolding admin_state_def q0 using a s1 rh queue_sync_waiting [OF a(4)] qa ca ap state_ok_advance [OF s1(2) z]
      ring_holds_cong [of "waiting_queue ?q" ?q] by (simp add: w1_def p(1) set_hq_def)
  have "cq_slot (waiting_queue ?q) n = cq_slot ?q n" by (simp add: cq_slot_def)
  then have e: "cq_entry (w_mem w1) (waiting_queue ?q) = posted ?c st r ?q n" using cq_entry_posted [OF ca] by (simp add: w1_def)
  show thesis
    by (rule that [OF wr st], unfold q0, rule e) (simp_all add: w1_def rings_only_stores [OF t], simp add: post_host_def Let_def p(2))
qed

lemma admin_step_answer:
  assumes "hq_admin_pending q" "oe_cid (cq_entry m q) = hq_admin_cid q"
  shows "hq_admin_status (admin_step m q) = oe_status (cq_entry m q)" "hq_admin_result (admin_step m q) = oe_result (cq_entry m q)"
    "hq_admin_error (admin_step m q) = 0" "hq_admin_done (admin_step m q) = hq_admin_done q + 1"
  using assms by (simp_all add: admin_step_def admin_complete_def)

text \<open>One admin command from the mutex to the result: the device executes it, the interrupt handler finds the
  completion, and the caller gets the status and the result of the execution.\<close>

lemma admin_command_on_board:
  assumes "on_board E" "\<And>l. 0 < e_irqs E l" "admin_state fd w n n"
    and x: "\<And>h. openflash_execute ram_platform (dev_command (numbered cmd (hq fd 0))) h (w_state w) = Inr (st, r, h, s1)"
    and s1: "queue_of s1 0 = queue_of (w_state w) 0" "state_ok s1" "s_status s1 = s_status (w_state w)"
  obtains fd' w' x where "openflash_admin_command E cmd fd w =
      Some (if st = 0 then 0 else - EIO, if st = 0 then Some r else None, fd', w')"
    "admin_state fd' w' (Suc n) (Suc n)" "w_state w' = upd_queue 0 (\<lambda>q. (advance_queue q)\<lparr>q_cq_head := x\<rparr>) s1"
    "rings_only (hq fd 0) (w_mem w) (w_mem w')"
    "(fst (w_dev w'))\<lparr>h_ram := m, h_irqs := l\<rparr> = (fst (w_dev w))\<lparr>h_ram := m, h_irqs := l\<rparr>"
proof -
  obtain fd0 w0 where p: "post_admin cmd fd w = (fd0, w0)" by fastforce
  then have fd0: "fd0 = set_hq 0 (waiting_queue (hq fd 0)) fd" by (simp add: post_admin_eq)
  obtain w1 where d: "writel E (ucast (hq_sq_tail (hq fd0 0))) (OPENFLASH_SQ_TAIL_DB (hq_qid (hq fd0 0))) w0 = Some w1"
    "admin_state fd0 w1 n (Suc n)" "cq_entry (w_mem w1) (hq fd0 0) = posted (numbered cmd (hq fd 0)) st r (hq fd 0) n"
    "w_state w1 = upd_queue 0 advance_queue s1" "rings_only (hq fd 0) (w_mem w) (w_mem w1)"
    "(fst (w_dev w1))\<lparr>h_ram := m, h_irqs := l\<rparr> = (fst (w_dev w))\<lparr>h_ram := m, h_irqs := l\<rparr>"
    using admin_posts [OF assms(1,3) p x s1, where m = m and l = l] by metis
  let ?q = "admin_step (w_mem w1) (hq fd0 0)"
  obtain w2 x where i: "openflash_irq E fd0 w1 = Some (IRQ_HANDLED, set_hq 0 ?q fd0, w2)"
    "admin_state (set_hq 0 ?q fd0) w2 (Suc n) (Suc n)" "w_mem w2 = w_mem w1"
    "w_state w2 = upd_queue 0 (\<lambda>q. q\<lparr>q_cq_head := x\<rparr>) (w_state w1)" "fst (w_dev w2) = w_host w1"
    using irq_takes_one [OF assms(1) d(2)] by metis
  have l2: "length (fd_queues fd) = 2" "length (fd_queues fd0) = 2" using assms(3) d(2) by (simp_all add: admin_state_def)
  have q0: "hq fd0 0 = waiting_queue (hq fd 0)" unfolding fd0 using l2(1) by (simp add: hq_set_hq)
  have an: "hq_admin_status ?q = st" "hq_admin_result ?q = r" "hq_admin_error ?q = 0" "hq_admin_done ?q = 1"
    using admin_step_answer [of "hq fd0 0" "w_mem w1"] d(3) by (simp_all add: q0 posted_def numbered_def)
  define fd3 where "fd3 = set_hq 0 (?q\<lparr>hq_admin_done := 0\<rparr>) fd0"
  obtain k where "e_irqs E (w_log w1) = Suc k" using gr0_implies_Suc [OF assms(2) [of "w_log w1"]] by metis
  then have "wait_for_completion_timeout E fd0 w1 = Some (True, fd3, w2)"
    using i(1) take_irqs_idle [OF assms(1) i(2)] an(4) l2(2)
    by (simp add: wait_for_completion_timeout_def hq_set_hq fd3_def Let_def)
  moreover have "admin_outcome True fd3 w2 = (if st = 0 then 0 else - EIO, if st = 0 then Some r else None, fd3, log Mutex_unlock w2)"
    using l2(2) an by (simp add: admin_outcome_def fd3_def hq_set_hq Let_def)
  ultimately have c: "openflash_admin_command E cmd fd w =
      Some (if st = 0 then 0 else - EIO, if st = 0 then Some r else None, fd3, log Mutex_unlock w2)"
    by (simp add: openflash_admin_command_def p d(1))
  have "ring_of (?q\<lparr>hq_admin_done := 0\<rparr>) = ring_of ?q" by (simp add: ring_of_def)
  then have a: "admin_state fd3 (log Mutex_unlock w2) (Suc n) (Suc n)"
    using i(2) l2 by (simp add: admin_state_def fd3_def hq_set_hq ring_holds_def cq_flag_def queue_sync_def cursor_at_def)
  have "w_state w2 = upd_queue 0 (\<lambda>q. (advance_queue q)\<lparr>q_cq_head := x\<rparr>) s1"
    using i(4) d(4) s1(2) by (simp add: upd_queue_upd_queue state_ok_def queues_ok_def OF_MAX_QUEUES_def o_def)
  then show thesis by (intro that [OF c a]) (simp_all add: i(3,5) d(5,6))
qed

end
