(* ===== verification/Board_Setup.thy ===== *)
theory Board_Setup
  imports Board_Admin
begin

text \<open>
  Bringing the controller up on the board: the register sequence that starts it, what the driver relies on from
  the kernel (locale \<open>board_env\<close>), the admin queue, IDENTIFY, CREATE_IOQ, and the invariant
  \<open>board_inv\<close> that relates driver, memory and device from then on.
\<close>

section \<open>Starting the controller\<close>

lemma set_lo_hi: "set_hi (set_lo a (ucast (lower_32_bits x))) (ucast (upper_32_bits x)) = x"
  unfolding set_lo_def set_hi_def low_mask
  by (rule bit_word_eqI, simp only: bit_simps bit_or_iff bit_and_iff bit_not_iff o_apply) (auto dest: bit_imp_le_length)

lemma board_register:
  assumes "on_board E" "openflash_mmio_write ram_platform a (ucast v) (w_host w) (w_state w) = Some (Inr (w_host w, s))"
  shows "writel E v a w = Some (log (Writel a v) (w\<lparr>w_dev := (w_host w, s)\<rparr>))"
  using board_writel [OF assms] by simp

lemma mmio_admin_registers:
  "openflash_mmio_write P OPENFLASH_REG_ADMIN_SQ_LO v h s = Some (Inr (h, upd_queue 0 (\<lambda>q. q\<lparr>q_sq_addr := set_lo (q_sq_addr q) v\<rparr>) s))"
  "openflash_mmio_write P OPENFLASH_REG_ADMIN_SQ_HI v h s = Some (Inr (h, upd_queue 0 (\<lambda>q. q\<lparr>q_sq_addr := set_hi (q_sq_addr q) v\<rparr>) s))"
  "openflash_mmio_write P OPENFLASH_REG_ADMIN_CQ_LO v h s = Some (Inr (h, upd_queue 0 (\<lambda>q. q\<lparr>q_cq_addr := set_lo (q_cq_addr q) v\<rparr>) s))"
  "openflash_mmio_write P OPENFLASH_REG_ADMIN_CQ_HI v h s = Some (Inr (h, upd_queue 0 (\<lambda>q. q\<lparr>q_cq_addr := set_hi (q_cq_addr q) v\<rparr>) s))"
  "openflash_mmio_write P OPENFLASH_REG_ADMIN_QSIZE v h s =
    Some (Inr (h, upd_queue 0 (\<lambda>q. q\<lparr>q_enabled := (q_depth q \<noteq> 0)\<rparr>)
      (upd_queue 0 (\<lambda>q. q\<lparr>q_depth := (if 2 \<le> v \<and> v \<le> 4096 then ucast v else 0)\<rparr>) s)))"
  "openflash_mmio_write P OPENFLASH_REG_CONTROL (ucast OPENFLASH_CTRL_ENABLE) h s =
    Some (Inr (h, s\<lparr>s_control := 1, s_status := OF_STATUS_READY\<rparr>))"
  "openflash_mmio_write P OPENFLASH_REG_CONTROL (ucast OPENFLASH_CTRL_RESET) h s = Some (Inr (h, openflash_reset s))"
  unfolding openflash_mmio_write_def by (simp_all add: of_consts)

definition started :: "openflash_queue \<Rightarrow> OpenFlashState \<Rightarrow> OpenFlashState" where
  "started q s = (upd_queue 0 (\<lambda>dq. dq\<lparr>q_sq_addr := hq_sq_dma q, q_cq_addr := hq_cq_dma q, q_depth := ucast (hq_depth q),
     q_enabled := True\<rparr>) s)\<lparr>s_control := 1, s_status := OF_STATUS_READY\<rparr>"

lemma qsize_accepted:
  assumes "1 < unat (d :: u16)" "unat d \<le> 4096"
  shows "(if 2 \<le> (ucast (ucast d :: u32) :: u64) \<and> (ucast (ucast d :: u32) :: u64) \<le> 4096
    then ucast (ucast (ucast d :: u32) :: u64) else 0) = (ucast d :: u32)" "(ucast d :: u32) \<noteq> 0"
proof -
  have "2 \<le> (ucast (ucast d :: u32) :: u64)" "(ucast (ucast d :: u32) :: u64) \<le> 4096"
    using assms by (simp_all add: word_le_nat_alt)
  then show "(if 2 \<le> (ucast (ucast d :: u32) :: u64) \<and> (ucast (ucast d :: u32) :: u64) \<le> 4096
    then ucast (ucast (ucast d :: u32) :: u64) else 0) = (ucast d :: u32)" by simp
  have "unat (ucast d :: u32) \<noteq> 0" using assms(1) by simp
  then show "(ucast d :: u32) \<noteq> 0" by (metis unsigned_0)
qed

lemma writel_board:
  assumes "on_board E"
  shows "writel E v a w = (case openflash_mmio_write ram_platform a (ucast v) (w_host w) (w_state w) of
    Some (Inr (h, s)) \<Rightarrow> Some (log (Writel a v) (w\<lparr>w_mem := h_ram h, w_dev := (h, s)\<rparr>)) | _ \<Rightarrow> None)"
  using assms by (auto simp: writel_def on_board_def board_write_def split: option.splits sum.splits)

lemma poll_ready:
  assumes "on_board E" "s_status (w_state w) AND OF_STATUS_READY \<noteq> 0"
  shows "readl_poll_timeout E OPENFLASH_REG_STATUS OPENFLASH_STATUS_READY w = (True, w)"
  unfolding readl_poll_timeout_def using assms(2) by (subst poll.simps) (simp add: board_status [OF assms(1)] ready_bits)

lemma start_controller_on_board:
  assumes "on_board E" "state_ok (w_state w)" "1 < unat (hq_depth q)" "unat (hq_depth q) \<le> 4096"
  obtains w' where "start_controller E q w = Some (True, w')" "w_mem w' = w_mem w" "w_state w' = started q (w_state w)"
    "fst (w_dev w') = w_host w" "extends admin_call w w'"
proof -
  have l: "unat (0 :: u16) < length (s_queues (w_state w))"
    using assms(2) by (simp add: state_ok_def queues_ok_def OF_MAX_QUEUES_def)
  have r: "OF_STATUS_READY \<noteq> 0" by (simp add: of_consts)
  have "\<exists>w'. start_controller E q w = Some (True, w') \<and> w_mem w' = w_mem w \<and> w_state w' = started q (w_state w) \<and>
      fst (w_dev w') = w_host w \<and> extends admin_call w w'"
    by (simp add: start_controller_def writel_board [OF assms(1)] mmio_admin_registers upd_queue_upd_queue [OF l] o_def set_lo_hi
        qsize_accepted [OF assms(3,4)] started_def extends_def poll_ready [OF assms(1)] r)
  then show thesis using that by metis
qed

lemma zero_completion: "oe_flags (dec_completion (replicate 64 0)) = 0"
  by code_simp

lemma ring_holds_clear:
  assumes "mem_load m (hq_cq_dma q) (unat (hq_depth q) * 64) = replicate (unat (hq_depth q) * 64) 0"
  shows "ring_holds m q 0"
proof -
  have "mem_load m (hq_cq_dma q + of_nat i * 64) 64 = replicate 64 0" if "i < unat (hq_depth q)" for i
    using mem_load_slice [of "i * 64" 64 "unat (hq_depth q) * 64" m "hq_cq_dma q"] that by (simp add: assms min_def)
  then show ?thesis by (simp add: ring_holds_def cq_flag_def zero_completion ring_flag_def)
qed

text \<open>A queue whose device side is in the state a reset leaves.\<close>

lemma started_sync:
  assumes "state_ok s" "q_sq_head (queue_of s 0) = 0" "q_cq_tail (queue_of s 0) = 0" "q_cq_phase (queue_of s 0) = 1"
    "hq_sq_tail q = 0" "1 < unat (hq_depth q)" "unat (hq_depth q) \<le> 4096"
  shows "queue_sync q (queue_of (started q s) 0) 0" "state_ok (started q s)" "s_status (started q s) AND OF_STATUS_READY \<noteq> 0"
    "queue_of (started q s) 1 = queue_of s 1"
proof -
  have l: "unat (0 :: u16) < length (s_queues s)" using assms(1) by (simp add: state_ok_def queues_ok_def OF_MAX_QUEUES_def)
  have q0: "queue_of (started q s) 0 = (queue_of s 0)\<lparr>q_sq_addr := hq_sq_dma q, q_cq_addr := hq_cq_dma q, q_depth := ucast (hq_depth q), q_enabled := True\<rparr>"
    using queue_of_upd_queue [OF l, of _ 0] by (simp add: started_def)
  show "queue_sync q (queue_of (started q s) 0) 0"
    unfolding q0 using assms by (simp add: queue_sync_def ring_slot_def ring_phase_def)
  have "queue_ok ((queue_of s 0)\<lparr>q_sq_addr := hq_sq_dma q, q_cq_addr := hq_cq_dma q, q_depth := ucast (hq_depth q), q_enabled := True\<rparr>)"
    using assms queues_ok_nth [of s 0] by (simp add: queue_ok_def state_ok_def OF_MAX_QUEUES_def)
  then have "state_ok (upd_queue 0 (\<lambda>dq. dq\<lparr>q_sq_addr := hq_sq_dma q, q_cq_addr := hq_cq_dma q, q_depth := ucast (hq_depth q), q_enabled := True\<rparr>) s)"
    using queues_ok_upd_admin [of s] assms(1) by (simp add: state_ok_def)
  then show "state_ok (started q s)" by (simp add: started_def state_ok_register_updates(1))
  show "s_status (started q s) AND OF_STATUS_READY \<noteq> 0" by (simp add: started_def of_consts)
  show "queue_of (started q s) 1 = queue_of s 1" using queue_of_upd_queue [OF l, of _ 1] by (simp add: started_def)
qed

section \<open>The kernel's side of the board\<close>

text \<open>The coherent buffers and the streaming mappings that are live after a history.\<close>

fun coherent_step :: "kcall \<Rightarrow> (u64 \<times> nat) list \<Rightarrow> (u64 \<times> nat) list" where
  "coherent_step (Dma_alloc a n) acc = (a, n) # acc"
| "coherent_step (Dma_free a n) acc = removeAll (a, n) acc"
| "coherent_step _ acc = acc"

definition coherent :: "kcall list \<Rightarrow> (u64 \<times> nat) list" where
  "coherent l = fold coherent_step l []"

fun mapped_step :: "kcall \<Rightarrow> (bio_vec \<times> u64 \<times> dma_data_direction) list \<Rightarrow> (bio_vec \<times> u64 \<times> dma_data_direction) list" where
  "mapped_step (Dma_map b a d) acc = (b, a, d) # acc"
| "mapped_step (Dma_unmap a n d) acc =
     (case List.extract (\<lambda>(b, a', d'). a' = a \<and> bv_len b = n \<and> d' = d) acc of None \<Rightarrow> acc | Some (xs, _, ys) \<Rightarrow> xs @ ys)"
| "mapped_step _ acc = acc"

definition mapped :: "kcall list \<Rightarrow> (bio_vec \<times> u64 \<times> dma_data_direction) list" where
  "mapped l = fold mapped_step l []"

text \<open>What the driver relies on: interrupts arrive while it waits, a coherent buffer overlaps no live one, a
  mapped page is no part of a live coherent buffer, and pages that do not overlap get bus addresses that do not
  overlap.\<close>

locale board_env =
  fixes E :: "board env"
  assumes on_board: "on_board E"
    and irqs: "0 < e_irqs E l"
    and alloc_nonzero: "e_alloc E l n = Some a \<Longrightarrow> a \<noteq> 0"
    and alloc_apart: "e_alloc E l n = Some a \<Longrightarrow> (b, k) \<in> set (coherent l) \<Longrightarrow> apart a n b k"
    and map_nonzero: "e_map E l v = Some a \<Longrightarrow> a \<noteq> 0"
    and map_apart: "e_map E l v = Some a \<Longrightarrow> (b, k) \<in> set (coherent l) \<Longrightarrow> apart a (unat (bv_len v)) b k"
    and map_separates: "e_map E l v = Some a \<Longrightarrow> (v', a', d) \<in> set (mapped l) \<Longrightarrow>
      apart (bv_addr v) (unat (bv_len v)) (bv_addr v') (unat (bv_len v')) \<Longrightarrow> apart a (unat (bv_len v)) a' (unat (bv_len v'))"

lemma coherent_append [simp]: "coherent [] = []" "coherent (l @ cs) = fold coherent_step cs (coherent l)"
  by (simp_all add: coherent_def)

lemma mapped_append [simp]: "mapped [] = []" "mapped (l @ cs) = fold mapped_step cs (mapped l)"
  by (simp_all add: mapped_def)

definition no_dma :: "kcall \<Rightarrow> bool" where
  "no_dma c \<longleftrightarrow> (\<forall>acc. coherent_step c acc = acc)"

lemma coherent_extends:
  assumes "extends no_dma w w'"
  shows "coherent (w_log w') = coherent (w_log w)"
proof -
  have "fold coherent_step cs acc = acc" if "list_all no_dma cs" for cs acc
    using that by (induction cs arbitrary: acc) (simp_all add: no_dma_def)
  then show ?thesis using assms by (auto simp: extends_def)
qed

lemma admin_no_dma: "admin_call c \<Longrightarrow> no_dma c"
  by (cases c) (simp_all add: no_dma_def)

lemma coherent_admin: "extends admin_call w w' \<Longrightarrow> coherent (w_log w') = coherent (w_log w)"
  by (rule coherent_extends) (erule extends_mono, rule admin_no_dma)

lemma mem_load_alloc: "n \<le> 2 ^ 64 \<Longrightarrow> mem_load (mem_store m a (replicate n 0)) a n = replicate n 0"
  using mem_load_store_same [of "replicate n 0" m a] by simp

text \<open>The device side of the admin queue as a reset leaves it.\<close>

definition admin_reset :: "OpenFlashState \<Rightarrow> bool" where
  "admin_reset s \<longleftrightarrow> q_sq_head (queue_of s 0) = 0 \<and> q_cq_tail (queue_of s 0) = 0 \<and> q_cq_phase (queue_of s 0) = 1"

definition ring_size :: "openflash_queue \<Rightarrow> nat" where
  "ring_size q = unat (hq_depth q) * 64"

context board_env
begin

lemma admin_started:
  assumes "state_ok (w_state w)" "admin_reset (w_state w)" "start_controller E q w = Some (ready, w')"
    and q: "hq_qid q = 0" "hq_sq_tail q = 0" "hq_cq_head q = 0" "hq_cq_phase q = 1" "1 < unat (hq_depth q)" "unat (hq_depth q) \<le> 4096"
    and "apart (hq_sq_dma q) (ring_size q) (hq_cq_dma q) (ring_size q)"
    and "mem_load (w_mem w) (hq_cq_dma q) (ring_size q) = replicate (ring_size q) 0" "fd_queues fd = [q, q1]"
  shows "ready" "admin_state fd w' 0 0" "w_state w' = started q (w_state w)" "w_mem w' = w_mem w"
    "extends admin_call w w'" "fst (w_dev w') = w_host w"
proof -
  obtain w2 where "start_controller E q w = Some (True, w2)" "w_mem w2 = w_mem w" "w_state w2 = started q (w_state w)"
    "fst (w_dev w2) = w_host w" "extends admin_call w w2"
    using start_controller_on_board [OF on_board assms(1) q(5,6)] by blast
  then show s: ready "w_state w' = started q (w_state w)" "w_mem w' = w_mem w" "extends admin_call w w'" "fst (w_dev w') = w_host w"
    using assms(3) by auto
  have "cursor_at q 0" using q by (simp add: cursor_at_def ring_slot_def ring_phase_def)
  moreover have "ring_holds (w_mem w) q 0" using assms(11) by (intro ring_holds_clear) (simp add: ring_size_def)
  ultimately show "admin_state fd w' 0 0"
    using started_sync [OF assms(1), of q] assms(2) q assms(10,12) by (simp add: admin_state_def s admin_reset_def ring_size_def)
qed

end

lemma dma_alloc_Some:
  assumes "dma_alloc_coherent E n w = (Some a, w')"
  shows "e_alloc E (w_log w) n = Some a" "w' = log (Dma_alloc a n) (w\<lparr>w_mem := mem_store (w_mem w) a (replicate n 0)\<rparr>)"
  using assms by (auto simp: dma_alloc_coherent_def split: option.splits)

text \<open>What a successful set-up of the admin queue has done.\<close>

lemma setup_admin_steps:
  assumes "openflash_setup_admin_queue E fd w = Some (0, fd', w')"
  obtains sq cq w1 w2 w3 w4 q where
    "dma_alloc_coherent E (unat (fd_queue_depth fd) * 64) (log (Kcalloc 2) w) = (Some sq, w1)"
    "dma_alloc_coherent E (unat (fd_queue_depth fd) * 64) w1 = (Some cq, w2)"
    "q = zero_hq\<lparr>hq_depth := fd_queue_depth fd, hq_cq_phase := 1, hq_sq_dma := sq, hq_cq_dma := cq\<rparr>"
    "w3 = logs [Alloc_irq_vectors, Request_irq 0] w2" "start_controller E q w3 = Some (True, w')"
    "fd' = fd\<lparr>fd_queues := [q, zero_hq], fd_nr_queues := 1\<rparr>"
proof -
  let ?n = "unat (fd_queue_depth fd) * 64"
  obtain r1 w1 where a1: "dma_alloc_coherent E ?n (log (Kcalloc 2) w) = (r1, w1)" by fastforce
  then obtain sq where sq: "r1 = Some sq"
    using assms by (cases r1) (auto simp: openflash_setup_admin_queue_def Let_def errno_simps split: if_splits)
  obtain r2 w2 where a2: "dma_alloc_coherent E ?n w1 = (r2, w2)" by fastforce
  then obtain cq where cq: "r2 = Some cq"
    using assms a1 sq by (cases r2) (auto simp: openflash_setup_admin_queue_def Let_def errno_simps split: if_splits)
  let ?q = "zero_hq\<lparr>hq_depth := fd_queue_depth fd, hq_cq_phase := 1, hq_sq_dma := sq, hq_cq_dma := cq\<rparr>"
  have q: "zero_hq\<lparr>hq_qid := 0, hq_depth := d, hq_cq_phase := 1, hq_admin_done := 0, hq_sq_dma := a, hq_cq_dma := b\<rparr> =
      zero_hq\<lparr>hq_depth := d, hq_cq_phase := 1, hq_sq_dma := a, hq_cq_dma := b\<rparr>" for d a b by (simp add: zero_hq_def)
  obtain v w3 where a3: "kernel_call E Alloc_irq_vectors w2 = (v, w3)" by fastforce
  obtain v4 w4 where a4: "kernel_call E (Request_irq 0) w3 = (v4, w4)" by fastforce
  have "\<not> v < 0" "v4 = 0"
    using assms a1 a2 a3 a4 sq cq by (auto simp: openflash_setup_admin_queue_def Let_def errno_simps split: if_splits)
  then have w: "w4 = logs [Alloc_irq_vectors, Request_irq 0] w2"
    using kernel_call_log [OF a3] kernel_call_log [OF a4] by (simp add: call_failed_def log_def logs_def)
  have "start_controller E ?q w4 = Some (True, w') \<and> fd' = fd\<lparr>fd_queues := [?q, zero_hq], fd_nr_queues := 1\<rparr>"
    using assms a1 a2 a3 a4 sq cq
    by (auto simp: openflash_setup_admin_queue_def Let_def set_hq_def errno_simps bind_eq_Some_conv q split: if_splits)
  then show thesis using that a1 a2 sq cq w by blast
qed

lemma zero_hq_simps [simp]:
  "hq_qid zero_hq = 0" "hq_sq_tail zero_hq = 0" "hq_cq_head zero_hq = 0" "hq_requests zero_hq = []" "hq_next_cid zero_hq = 0"
  by (simp_all add: zero_hq_def)

context board_env
begin

lemma setup_admin_on_board:
  assumes "openflash_setup_admin_queue E fd w = Some (0, fd', w')" "state_ok (w_state w)" "admin_reset (w_state w)"
    "1 < unat (fd_queue_depth fd)" "unat (fd_queue_depth fd) \<le> 4096"
  obtains q where "fd' = fd\<lparr>fd_queues := [q, zero_hq], fd_nr_queues := 1\<rparr>" "admin_state fd' w' 0 0"
    "coherent (w_log w') = (hq_cq_dma q, ring_size q) # (hq_sq_dma q, ring_size q) # coherent (w_log w)"
    "hq_depth q = fd_queue_depth fd" "w_state w' = started q (w_state w)"
    "(fst (w_dev w'))\<lparr>h_ram := m\<rparr> = (fst (w_dev w))\<lparr>h_ram := m\<rparr>"
proof -
  let ?n = "unat (fd_queue_depth fd) * 64"
  obtain sq cq w1 w2 w3 w4 q where a1: "dma_alloc_coherent E ?n (log (Kcalloc 2) w) = (Some sq, w1)"
    and a2: "dma_alloc_coherent E ?n w1 = (Some cq, w2)"
    and q: "q = zero_hq\<lparr>hq_depth := fd_queue_depth fd, hq_cq_phase := 1, hq_sq_dma := sq, hq_cq_dma := cq\<rparr>"
    and w3: "w3 = logs [Alloc_irq_vectors, Request_irq 0] w2" and st: "start_controller E q w3 = Some (True, w')"
    and fd': "fd' = fd\<lparr>fd_queues := [q, zero_hq], fd_nr_queues := 1\<rparr>"
    using setup_admin_steps [OF assms(1)] by metis
  note d1 = dma_alloc_Some [OF a1] and d2 = dma_alloc_Some [OF a2]
  have n: "ring_size q = ?n" "?n \<le> 2 ^ 64" using assms(5) by (simp_all add: ring_size_def q)
  have "apart cq ?n sq ?n" using alloc_apart [OF d2(1), of sq ?n] d1(2) by simp
  then have ap: "apart (hq_sq_dma q) (ring_size q) (hq_cq_dma q) (ring_size q)" using n(1) by (simp add: q apart_sym)
  have z: "mem_load (w_mem w3) (hq_cq_dma q) (ring_size q) = replicate (ring_size q) 0"
    using mem_load_alloc [OF n(2)] n(1) by (simp add: w3 d2(2) q)
  have s: "w_state w3 = w_state w" "fst (w_dev w3) = fst (w_dev w)" using d1(2) d2(2) by (simp_all add: w3)
  note b = admin_started [OF _ _ st _ _ _ _ _ _ ap z, of fd' zero_hq]
  have "admin_state fd' w' 0 0" "w_state w' = started q (w_state w)" "extends admin_call w3 w'" "fst (w_dev w') = w_host w3"
    using b assms(2-5) s fd' by (simp_all add: q)
  moreover have "coherent (w_log w3) = (cq, ?n) # (sq, ?n) # coherent (w_log w)"
    using d1(2) d2(2) by (simp add: w3)
  ultimately show thesis using that [OF fd'] coherent_admin [of w3 w'] n(1) s(2) by (simp add: q)
qed

text \<open>IDENTIFY and CREATE_IOQ as the driver issues them.\<close>

lemma identify_on_board:
  assumes "admin_state fd w n n"
  obtains fd' w' x where "openflash_admin_identify E fd w =
      Some (if s_capacity (w_state w) div OF_BLOCK_SIZE = 0 then - ENODEV else 0, fd', w')"
    "admin_state fd' w' (Suc n) (Suc n)" "w_state w' = upd_queue 0 (\<lambda>q. (advance_queue q)\<lparr>q_cq_head := x\<rparr>) (w_state w)"
    "s_capacity (w_state w) div OF_BLOCK_SIZE \<noteq> 0 \<Longrightarrow> fd_capacity_blocks fd' = s_capacity (w_state w) div OF_BLOCK_SIZE"
    "rings_only (hq fd 0) (w_mem w) (w_mem w')" "(fst (w_dev w'))\<lparr>h_ram := m, h_irqs := l\<rparr> = (fst (w_dev w))\<lparr>h_ram := m, h_irqs := l\<rparr>"
proof -
  let ?cmd = "zero_command\<lparr>oc_opcode := opcode_value OPENFLASH_ADMIN_IDENTIFY\<rparr>" and ?cap = "s_capacity (w_state w) div OF_BLOCK_SIZE"
  have x: "openflash_execute ram_platform (dev_command (numbered ?cmd q)) h (w_state w) = Inr (0, ?cap, h, w_state w)" for h q
    by (simp add: openflash_execute_def numbered_def of_opcodes OF_SC_SUCCESS_def)
  have ok: "state_ok (w_state w)" using assms by (simp add: admin_state_def)
  obtain fd' w' y where c: "openflash_admin_command E ?cmd fd w = Some (0, Some ?cap, fd', w')" "admin_state fd' w' (Suc n) (Suc n)"
    "w_state w' = upd_queue 0 (\<lambda>q. (advance_queue q)\<lparr>q_cq_head := y\<rparr>) (w_state w)" "rings_only (hq fd 0) (w_mem w) (w_mem w')"
    "(fst (w_dev w'))\<lparr>h_ram := m, h_irqs := l\<rparr> = (fst (w_dev w))\<lparr>h_ram := m, h_irqs := l\<rparr>"
    using admin_command_on_board [OF on_board irqs assms x _ ok, where m = m and l = l] by (simp, metis)
  show thesis
  proof (cases "?cap = 0")
    case True
    then show ?thesis using that [of fd' w' y] c by (simp add: openflash_admin_identify_def)
  next
    case False
    have "admin_state (fd'\<lparr>fd_capacity_blocks := ?cap\<rparr>) w' (Suc n) (Suc n)" using c(2) by (simp add: admin_state_def)
    then show ?thesis using that [of "fd'\<lparr>fd_capacity_blocks := ?cap\<rparr>" w' y] c False by (simp add: openflash_admin_identify_def)
  qed
qed

end

abbreviation region_apart :: "u64 \<times> nat \<Rightarrow> u64 \<times> nat \<Rightarrow> bool" where
  "region_apart x y \<equiv> apart (fst x) (snd x) (fst y) (snd y)"

context board_env
begin

lemma alloc_region:
  assumes "dma_alloc_coherent E n w = (Some a, w')"
  shows "coherent (w_log w') = (a, n) # coherent (w_log w)" "w_dev w' = w_dev w" "a \<noteq> 0"
    "sorted_wrt region_apart (coherent (w_log w)) \<Longrightarrow> sorted_wrt region_apart (coherent (w_log w'))"
    "0 < k \<Longrightarrow> apart b k a n \<Longrightarrow> mem_load (w_mem w') b k = mem_load (w_mem w) b k"
    "n \<le> 2 ^ 64 \<Longrightarrow> mem_load (w_mem w') a n = replicate n 0"
  using dma_alloc_Some [OF assms] alloc_apart alloc_nonzero
  by (auto simp: mem_load_store_apart mem_load_alloc)

lemma alloc_sgls_on_board:
  "alloc_sgls E n tag rs w = (True, tag', rs', w') \<Longrightarrow> tag + n = length rs \<Longrightarrow>
   sorted_wrt region_apart (coherent (w_log w)) \<Longrightarrow>
   \<exists>as. length as = n \<and> tag' = tag + n \<and> w_dev w' = w_dev w \<and>
     rs' = take tag rs @ map2 (\<lambda>r a. r\<lparr>r_sgl_dma := a\<rparr>) (drop tag rs) as \<and>
     coherent (w_log w') = rev (map (\<lambda>a. (a, sgl_table_size)) as) @ coherent (w_log w) \<and> 0 \<notin> set as \<and>
     (\<exists>cs. w_log w' = w_log w @ cs \<and> list_all (\<lambda>c. \<exists>a. c = Dma_alloc a sgl_table_size) cs) \<and>
     sorted_wrt region_apart (coherent (w_log w')) \<and>
     (\<forall>b k. 0 < k \<longrightarrow> (\<forall>a \<in> set as. apart b k a sgl_table_size) \<longrightarrow> mem_load (w_mem w') b k = mem_load (w_mem w) b k)"
proof (induction n arbitrary: tag rs w)
  case 0
  then show ?case by auto
next
  case (Suc n)
  obtain r w1 where d: "dma_alloc_coherent E sgl_table_size w = (r, w1)" by fastforce
  then obtain a where r: "r = Some a" using Suc.prems(1) by (cases r) auto
  note al = alloc_region [OF d [unfolded r]]
  let ?rs = "rs[tag := (rs ! tag)\<lparr>r_sgl_dma := a\<rparr>]"
  have t: "tag < length rs" using Suc.prems(2) by simp
  have "alloc_sgls E n (Suc tag) ?rs w1 = (True, tag', rs', w')" using Suc.prems(1) d r by simp
  then obtain as where as: "length as = n" "tag' = Suc tag + n" "w_dev w' = w_dev w1"
    "rs' = take (Suc tag) ?rs @ map2 (\<lambda>r a. r\<lparr>r_sgl_dma := a\<rparr>) (drop (Suc tag) ?rs) as"
    "coherent (w_log w') = rev (map (\<lambda>a. (a, sgl_table_size)) as) @ coherent (w_log w1)" "0 \<notin> set as"
    "\<exists>cs. w_log w' = w_log w1 @ cs \<and> list_all (\<lambda>c. \<exists>a. c = Dma_alloc a sgl_table_size) cs"
    "sorted_wrt region_apart (coherent (w_log w'))"
    "\<And>b k. 0 < k \<Longrightarrow> \<forall>a \<in> set as. apart b k a sgl_table_size \<Longrightarrow> mem_load (w_mem w') b k = mem_load (w_mem w1) b k"
    using Suc.IH [of "Suc tag" ?rs w1] Suc.prems(2) al(4) [OF Suc.prems(3)] by auto
  have "take (Suc tag) ?rs = take tag rs @ [(rs ! tag)\<lparr>r_sgl_dma := a\<rparr>]" "drop (Suc tag) ?rs = drop (Suc tag) rs"
    using t by (simp_all add: take_Suc_conv_app_nth)
  then have "rs' = take tag rs @ map2 (\<lambda>r a. r\<lparr>r_sgl_dma := a\<rparr>) (drop tag rs) (a # as)"
    using as(4) t by (simp add: Cons_nth_drop_Suc [symmetric])
  moreover have "\<exists>cs. w_log w' = w_log w @ cs \<and> list_all (\<lambda>c. \<exists>a. c = Dma_alloc a sgl_table_size) cs"
    using as(7) dma_alloc_log(1) [OF d [unfolded r]] by auto
  ultimately show ?case using as al by (intro exI [of _ "a # as"]) simp
qed

end

section \<open>Creating the I/O queue\<close>

text \<open>The coherent buffers of the driver: the payload lists, the I/O rings and the admin rings.\<close>

definition regions :: "openflash_dev \<Rightarrow> (u64 \<times> nat) list" where
  "regions fd = rev (map (\<lambda>r. (r_sgl_dma r, sgl_table_size)) (hq_requests (hq fd 1))) @
     [(hq_cq_dma (hq fd 1), ring_size (hq fd 1)), (hq_sq_dma (hq fd 1), ring_size (hq fd 1)),
      (hq_cq_dma (hq fd 0), ring_size (hq fd 0)), (hq_sq_dma (hq fd 0), ring_size (hq fd 0))]"

definition layout :: "openflash_dev \<Rightarrow> board world \<Rightarrow> bool" where
  "layout fd w \<longleftrightarrow> set (regions fd) \<subseteq> set (coherent (w_log w)) \<and> sorted_wrt region_apart (regions fd) \<and>
     list_all (\<lambda>r. r_sgl_dma r \<noteq> 0) (hq_requests (hq fd 1))"

definition in_flight :: "openflash_queue \<Rightarrow> nat set" where
  "in_flight q = {i. i < length (hq_requests q) \<and> r_rq (hq_requests q ! i) \<noteq> None}"

text \<open>The completions the driver has not taken yet: the tag and the status of each, in ring order.\<close>

definition answers :: "mem \<Rightarrow> openflash_queue \<Rightarrow> nat \<Rightarrow> (nat \<times> u16) list \<Rightarrow> bool" where
  "answers m q c ps \<longleftrightarrow> (\<forall>j < length ps. let e = dec_completion (mem_load m (cq_slot q (c + j)) 64) in
     oe_cid e = of_nat (fst (ps ! j)) + 1 \<and> oe_status e = snd (ps ! j))"

definition io_state :: "openflash_dev \<Rightarrow> board world \<Rightarrow> nat \<Rightarrow> (nat \<times> u16) list \<Rightarrow> bool" where
  "io_state fd w c ps \<longleftrightarrow> length (fd_queues fd) = 2 \<and> hq_qid (hq fd 1) = 1 \<and> state_ok (w_state w) \<and>
     s_status (w_state w) AND OF_STATUS_READY \<noteq> 0 \<and> queue_sync (hq fd 1) (queue_of (w_state w) 1) (c + length ps) \<and>
     cursor_at (hq fd 1) c \<and> ring_holds (w_mem w) (hq fd 1) (c + length ps) \<and> io_inv (hq fd 1) \<and>
     answers (w_mem w) (hq fd 1) c ps \<and> distinct (map fst ps) \<and> set (map fst ps) = in_flight (hq fd 1)"

text \<open>The live mappings are those that ending the requests in flight will unmap.\<close>

definition owed :: "mem \<Rightarrow> u64 \<Rightarrow> u32 \<Rightarrow> dma_data_direction \<Rightarrow> openflash_request \<Rightarrow> int" where
  "owed m a n dir r = - tally (map_weight a n dir) (snd (finish_request m BLK_STS_OK r))"

definition dma_balanced :: "openflash_dev \<Rightarrow> 'd world \<Rightarrow> bool" where
  "dma_balanced fd w \<longleftrightarrow> (\<forall>a n dir. tally (map_weight a n dir) (w_log w) =
     sum_list (map (owed (w_mem w) a n dir) (hq_requests (hq fd 1))))"

definition board_inv :: "openflash_dev \<Rightarrow> board world \<Rightarrow> nat \<Rightarrow> nat \<Rightarrow> (nat \<times> u16) list \<Rightarrow> bool" where
  "board_inv fd w n c ps \<longleftrightarrow> admin_state fd w n n \<and> io_state fd w c ps \<and> layout fd w \<and> dma_balanced fd w"

lemma admin_state_frame:
  assumes "admin_state fd w c n" "hq fd' 0 = hq fd 0" "length (fd_queues fd') = 2" "w_state w' = w_state w"
    "mem_load (w_mem w') (hq_cq_dma (hq fd 0)) (ring_size (hq fd 0)) = mem_load (w_mem w) (hq_cq_dma (hq fd 0)) (ring_size (hq fd 0))"
  shows "admin_state fd' w' c n"
  using assms ring_holds_frame [of "w_mem w'" "hq fd 0" "w_mem w"] by (simp add: admin_state_def ring_size_def)

lemma create_control: "unat (OPENFLASH_CREATE_IOQ_CONTROL 1 1) = 65537"
  by (simp add: OPENFLASH_CREATE_IOQ_CONTROL_def)

lemma unat_u64_eq_1: "ucast (1 :: u16) = (1 :: u64)"
  by simp

context board_env
begin

lemma create_io_queue_on_board:
  assumes "admin_state fd w n n" and q: "hq_qid (hq fd 1) = 1" "hq_sq_tail (hq fd 1) = 0" "hq_sq_dma (hq fd 1) \<noteq> 0" "hq_cq_dma (hq fd 1) \<noteq> 0"
    "1 < unat (hq_depth (hq fd 1))" "unat (hq_depth (hq fd 1)) \<le> 4096"
  obtains fd' w' q0 where "openflash_create_io_queue E fd w = Some (0, fd', w')" "admin_state fd' w' (Suc n) (Suc n)"
    "fd' = set_hq 0 q0 fd" "ring_of q0 = ring_of (hq fd 0)" "extends admin_call w w'"
    "queue_sync (hq fd 1) (queue_of (w_state w') 1) 0" "rings_only (hq fd 0) (w_mem w) (w_mem w')"
    "s_storage (w_state w') = s_storage (w_state w)" "s_capacity (w_state w') = s_capacity (w_state w)"
    "s_backing_file (w_state w') = s_backing_file (w_state w)"
    "(fst (w_dev w'))\<lparr>h_ram := m, h_irqs := l\<rparr> = (fst (w_dev w))\<lparr>h_ram := m, h_irqs := l\<rparr>"
proof -
  let ?q = "hq fd 1" and ?s = "w_state w"
  define cmd where "cmd = zero_command\<lparr>oc_opcode := opcode_value OPENFLASH_ADMIN_CREATE_IOQ, oc_nblocks := ucast (hq_depth ?q),
    oc_control := OPENFLASH_CREATE_IOQ_CONTROL (hq_qid ?q) 1, oc_data_addr := hq_sq_dma ?q, oc_metadata_addr := hq_cq_dma ?q\<rparr>"
  define dq where "dq = \<lparr>q_sq_addr = hq_sq_dma ?q, q_cq_addr = hq_cq_dma ?q, q_depth = ucast (hq_depth ?q), q_sq_head = 0,
    q_cq_tail = 0, q_cq_head = 0, q_vector = 1, q_cq_phase = 1, q_enabled = True\<rparr>"
  define s1 where "s1 = ?s\<lparr>s_queues := [queue_of ?s 0, dq]\<rparr>"
  have ok: "state_ok ?s" and ne: "fd_queues fd \<noteq> []" and l2: "length (fd_queues fd) = 2" using assms(1) by (auto simp: admin_state_def)
  have x: "openflash_execute ram_platform (dev_command (numbered cmd q0)) h ?s = Inr (0, 1, h, s1)" for h q0
    using create_ioq_eq [of ?s "dev_command (numbered cmd q0)" ram_platform h] q ok
    by (simp add: cmd_def numbered_def create_control of_opcodes state_ok_def s1_def dq_def OF_SC_SUCCESS_def)
  have "queue_ok dq" using q by (simp add: queue_ok_def dq_def OF_MAX_QUEUES_def)
  then have s1: "queue_of s1 0 = queue_of ?s 0" "state_ok s1" "s_status s1 = s_status ?s"
    using ok queues_ok_nth [of ?s 0] by (simp_all add: s1_def state_ok_def media_ok_def queues_ok_def OF_MAX_QUEUES_def)
  obtain fd' w' y where c: "openflash_admin_command E cmd fd w = Some (0, Some 1, fd', w')" "admin_state fd' w' (Suc n) (Suc n)"
    "w_state w' = upd_queue 0 (\<lambda>q. (advance_queue q)\<lparr>q_cq_head := y\<rparr>) s1" "rings_only (hq fd 0) (w_mem w) (w_mem w')"
    "(fst (w_dev w'))\<lparr>h_ram := m, h_irqs := l\<rparr> = (fst (w_dev w))\<lparr>h_ram := m, h_irqs := l\<rparr>"
    using admin_command_on_board [OF on_board irqs assms(1) x s1, where m = m and l = l] by (simp, metis)
  obtain q0 where f: "fd' = set_hq 0 q0 fd" "ring_of q0 = ring_of (hq fd 0)" "extends admin_call w w'"
    using admin_command_frame [OF c(1) ne] by (auto simp: admin_frame_def)
  have "openflash_create_io_queue E fd w = Some (0, fd', w')"
    unfolding openflash_create_io_queue_def Let_def cmd_def [symmetric] c(1)
    using q(1) by (simp add: f(1) hq_set_hq del: One_nat_def)
  moreover have "queue_of (w_state w') 1 = dq" unfolding c(3) by (simp add: s1_def upd_queue_def)
  moreover have "queue_sync ?q dq 0" using q by (simp add: queue_sync_def dq_def ring_slot_def ring_phase_def)
  ultimately show thesis using that [of fd' w' q0] c f by (simp add: s1_def)
qed

end

lemma setup_io_steps:
  assumes "openflash_setup_io_queue E fd w = Some (0, fd', w')" "e_garbage E \<noteq> 0"
  obtains sq cq w1 w2 tag rs w3 q fd2 where
    "dma_alloc_coherent E (unat (fd_queue_depth fd) * 64) w = (Some sq, w1)"
    "dma_alloc_coherent E (unat (fd_queue_depth fd) * 64) w1 = (Some cq, w2)"
    "alloc_sgls E (unat (fd_queue_depth fd) - 1) 0 (replicate (unat (fd_queue_depth fd) - 1) zero_request)
       (log (Kcalloc (unat (fd_queue_depth fd) - 1)) w2) = (True, tag, rs, w3)"
    "q = (hq fd 1)\<lparr>hq_qid := 1, hq_depth := fd_queue_depth fd, hq_cq_phase := 1, hq_sq_dma := sq, hq_cq_dma := cq, hq_requests := rs\<rparr>"
    "openflash_create_io_queue E (set_hq 1 q fd) (log (Request_irq 1) w3) = Some (0, fd2, w')"
    "fd' = fd2\<lparr>fd_nr_queues := 2\<rparr>"
proof -
  let ?n = "unat (fd_queue_depth fd) * 64" and ?k = "unat (fd_queue_depth fd) - 1"
  obtain r1 w1 where a1: "dma_alloc_coherent E ?n w = (r1, w1)" by fastforce
  then obtain sq where sq: "r1 = Some sq"
    using assms by (cases r1) (auto simp: openflash_setup_io_queue_def Let_def errno_simps)
  obtain r2 w2 where a2: "dma_alloc_coherent E ?n w1 = (r2, w2)" by fastforce
  then obtain cq where cq: "r2 = Some cq"
    using assms a1 sq by (cases r2) (auto simp: openflash_setup_io_queue_def Let_def errno_simps)
  obtain ok tag rs w3 where a3: "alloc_sgls E ?k 0 (replicate ?k zero_request) (log (Kcalloc ?k) w2) = (ok, tag, rs, w3)"
    by (metis prod_cases4)
  have kc: "e_kcalloc E (w_log w2)" and ok: "ok = True"
    using assms a1 a2 a3 sq cq by (auto simp: openflash_setup_io_queue_def Let_def errno_simps split: if_splits)
  obtain v w4 where a4: "kernel_call E (Request_irq 1) w3 = (v, w4)" by fastforce
  have v: "v = 0"
    using assms a1 a2 a3 a4 sq cq kc ok by (auto simp: openflash_setup_io_queue_def Let_def split: if_splits)
  then have w4: "w4 = log (Request_irq 1) w3" using kernel_call_log [OF a4] by (simp add: call_failed_def)
  let ?q = "(hq fd 1)\<lparr>hq_qid := 1, hq_depth := fd_queue_depth fd, hq_cq_phase := 1, hq_sq_dma := sq, hq_cq_dma := cq, hq_requests := rs\<rparr>"
  obtain ret fd2 w5 where a5: "openflash_create_io_queue E (set_hq 1 ?q fd) w4 = Some (ret, fd2, w5)"
    using assms(1) a1 a2 a3 a4 sq cq kc ok v
    by (cases "openflash_create_io_queue E (set_hq 1 ?q fd) w4") (auto simp: openflash_setup_io_queue_def Let_def)
  have "ret = 0" "fd' = fd2\<lparr>fd_nr_queues := 2\<rparr>" "w' = w5"
    using assms(1) a1 a2 a3 a4 a5 sq cq kc ok v by (auto simp: openflash_setup_io_queue_def Let_def split: if_splits)
  then show thesis using that a1 a2 a3 a5 sq cq ok w4 by blast
qed

lemma replicate_tables:
  "length as = n \<Longrightarrow> map r_sgl_dma (map2 (\<lambda>r a. r\<lparr>r_sgl_dma := a\<rparr>) (replicate n zero_request) as) = as \<and>
   map r_rq (map2 (\<lambda>r a. r\<lparr>r_sgl_dma := a\<rparr>) (replicate n zero_request) as) = replicate n None"
proof (induction as arbitrary: n)
  case Nil
  then show ?case by simp
next
  case (Cons a as)
  then show ?case by (cases n) (auto simp: zero_request_def)
qed

lemma tally_no_maps:
  assumes "list_all (\<lambda>c. \<exists>a. c = Dma_alloc a k) cs"
  shows "tally (map_weight a n d) cs = 0"
  using assms by (induction cs) (auto simp: map_weight_def)

lemma tally_map_admin: "extends admin_call w w' \<Longrightarrow> tally (map_weight a n d) (w_log w') = tally (map_weight a n d) (w_log w)"
  by (erule tally_extends) (auto simp: map_weight_def elim: admin_call.elims)

lemma idle_table:
  assumes "map r_rq rs = replicate n None"
  shows "r \<in> set rs \<Longrightarrow> r_rq r = None" "sum_list (map (owed m a k d) rs) = 0"
proof -
  show none: "r_rq r = None" if "r \<in> set rs" for r
    using that assms by (metis (no_types, lifting) image_eqI in_set_replicate set_map)
  have "map (owed m a k d) rs = map (\<lambda>_. 0) rs" using none by (auto simp: owed_def finish_request_def)
  then show "sum_list (map (owed m a k d) rs) = 0" by (simp only: sum_list_0)
qed

lemma sorted_region:
  assumes "sorted_wrt region_apart (xs @ ys)" "x \<in> set xs" "y \<in> set ys"
  shows "apart (fst x) (snd x) (fst y) (snd y)" "apart (fst y) (snd y) (fst x) (snd x)"
  using assms by (auto simp: sorted_wrt_append apart_sym [of "fst y"])

lemma layout_apart:
  assumes "layout fd w"
  shows "apart (hq_cq_dma (hq fd 1)) (ring_size (hq fd 1)) (hq_sq_dma (hq fd 0)) (ring_size (hq fd 0))"
    "apart (hq_cq_dma (hq fd 1)) (ring_size (hq fd 1)) (hq_cq_dma (hq fd 0)) (ring_size (hq fd 0))"
    "apart (hq_cq_dma (hq fd 1)) (ring_size (hq fd 1)) (hq_sq_dma (hq fd 1)) (ring_size (hq fd 1))"
    "apart (hq_sq_dma (hq fd 1)) (ring_size (hq fd 1)) (hq_cq_dma (hq fd 0)) (ring_size (hq fd 0))"
  using assms by (auto simp: layout_def regions_def sorted_wrt_append)

lemma layout_cong:
  assumes "layout fd w" "coherent (w_log w') = coherent (w_log w)" "ring_of (hq fd' 0) = ring_of (hq fd 0)"
    "ring_of (hq fd' 1) = ring_of (hq fd 1)" "map r_sgl_dma (hq_requests (hq fd' 1)) = map r_sgl_dma (hq_requests (hq fd 1))"
  shows "layout fd' w'"
proof -
  have t: "map (\<lambda>r. (r_sgl_dma r, sgl_table_size)) rs = map (\<lambda>a. (a, sgl_table_size)) (map r_sgl_dma rs)" for rs by simp
  have l: "list_all (\<lambda>r. r_sgl_dma r \<noteq> 0) rs = list_all (\<lambda>a. a \<noteq> 0) (map r_sgl_dma rs)" for rs by (simp add: list_all_iff)
  have "regions fd' = regions fd" unfolding regions_def t assms(5) using assms(3,4) by (simp add: ring_of_def ring_size_def)
  then show ?thesis using assms(1,2) unfolding layout_def l assms(5) by simp
qed

lemma io_inv_idle:
  assumes "map r_rq (hq_requests q) = replicate (unat (hq_depth q) - 1) None" "cq_ok q"
  shows "io_inv q" "in_flight q = {}"
proof -
  have l: "length (hq_requests q) = unat (hq_depth q) - 1" using assms(1) by (metis length_map length_replicate)
  have "r_rq (hq_requests q ! i) = None" if "i < length (hq_requests q)" for i
    using idle_table(1) [OF assms(1)] that by simp
  then show "io_inv q" "in_flight q = {}" using l assms(2) by (simp_all add: io_inv_def in_flight_def)
qed

context board_env
begin

text \<open>CREATE_IOQ completes the set-up: the I/O queue is live, empty and consistent with the device.\<close>

lemma board_created:
  assumes "admin_state fd w n n" "layout fd w"
    and q: "hq_qid (hq fd 1) = 1" "hq_sq_tail (hq fd 1) = 0" "hq_sq_dma (hq fd 1) \<noteq> 0" "hq_cq_dma (hq fd 1) \<noteq> 0"
      "1 < unat (hq_depth (hq fd 1))" "unat (hq_depth (hq fd 1)) \<le> 4096" "hq_cq_head (hq fd 1) = 0" "hq_cq_phase (hq fd 1) = 1"
    and idle: "map r_rq (hq_requests (hq fd 1)) = replicate (unat (hq_depth (hq fd 1)) - 1) None"
    and clear: "mem_load (w_mem w) (hq_cq_dma (hq fd 1)) (ring_size (hq fd 1)) = replicate (ring_size (hq fd 1)) 0"
    and bal: "\<And>a k dir. tally (map_weight a k dir) (w_log w) = 0"
  obtains fd' w' q0 where "openflash_create_io_queue E fd w = Some (0, fd', w')" "board_inv fd' w' (Suc n) 0 []" "fd' = set_hq 0 q0 fd"
    "s_storage (w_state w') = s_storage (w_state w)" "s_capacity (w_state w') = s_capacity (w_state w)"
    "s_backing_file (w_state w') = s_backing_file (w_state w)"
    "(fst (w_dev w'))\<lparr>h_ram := m, h_irqs := l\<rparr> = (fst (w_dev w))\<lparr>h_ram := m, h_irqs := l\<rparr>"
proof -
  let ?q = "hq fd 1"
  obtain fd' w' q0 where c: "openflash_create_io_queue E fd w = Some (0, fd', w')" "admin_state fd' w' (Suc n) (Suc n)"
    "fd' = set_hq 0 q0 fd" "ring_of q0 = ring_of (hq fd 0)" "extends admin_call w w'"
    "queue_sync ?q (queue_of (w_state w') 1) 0" "rings_only (hq fd 0) (w_mem w) (w_mem w')"
    "s_storage (w_state w') = s_storage (w_state w)" "s_capacity (w_state w') = s_capacity (w_state w)"
    "s_backing_file (w_state w') = s_backing_file (w_state w)"
    "(fst (w_dev w'))\<lparr>h_ram := m, h_irqs := l\<rparr> = (fst (w_dev w))\<lparr>h_ram := m, h_irqs := l\<rparr>"
    using create_io_queue_on_board [OF assms(1) q(1-6), where m = m and l = l] by metis
  have l2: "length (fd_queues fd) = 2" using assms(1) by (simp add: admin_state_def)
  have h: "hq fd' 0 = q0" "hq fd' 1 = ?q" "length (fd_queues fd') = 2" using l2 by (simp_all add: c(3) set_hq_def)
  have "mem_load (w_mem w') (hq_cq_dma ?q) (ring_size ?q) = replicate (ring_size ?q) 0"
    using c(7) layout_apart [OF assms(2)] clear q(5) by (simp add: rings_only_def ring_size_def)
  then have rh: "ring_holds (w_mem w') ?q 0" using ring_holds_clear by (simp add: ring_size_def)
  have cur: "cursor_at ?q 0" using q by (simp add: cursor_at_def ring_slot_def ring_phase_def)
  have ok: "cq_ok ?q" using q by (simp add: cq_ok_def)
  have "io_state fd' w' 0 []"
    using c(2,6) h rh cur io_inv_idle [OF idle ok] q(1) by (simp add: io_state_def admin_state_def answers_def)
  moreover have "layout fd' w'" using layout_cong [OF assms(2) coherent_admin [OF c(5)], of fd'] h c(4) by simp
  moreover have "dma_balanced fd' w'"
    using h(2) bal tally_map_admin [OF c(5)] idle_table(2) [OF idle] by (simp add: dma_balanced_def)
  ultimately show thesis using that c by (simp add: board_inv_def)
qed

end

end
