(* ===== verification/Host_Probe.thy ===== *)
theory Host_Probe
  imports Host_Inv
begin

text \<open>
  Probe as a sequence of steps: what a successful probe has called, and that it leaves the driver in its invariant.
\<close>

section \<open>Probe\<close>

definition fresh_dev :: "u64 \<Rightarrow> openflash_dev" where
  "fresh_dev caps = \<lparr>fd_queues = [], fd_nr_queues = 0, fd_queue_depth = OPENFLASH_DEFAULT_Q_DEPTH, fd_capacity_blocks = 0,
     fd_capabilities = caps, fd_disk = False, fd_reset_pending = False\<rparr>"

lemma kernel_call_ok:
  assumes "kernel_call E c w = (0, w')" "c \<noteq> Alloc_irq_vectors"
  shows "w' = log c w"
  using kernel_call_log [OF assms(1)] assms(2) by (simp add: call_failed_def)

lemma register_ok:
  assumes "openflash_register_block_device E fd w = (0, fd', w')"
  shows "fd' = fd\<lparr>fd_disk := True\<rparr>" "\<exists>a b c d e f. w' = logs [Alloc_tag_set (unat (fd_queue_depth fd) - 1), Alloc_disk, Queue_limits a b c d e,
    Add_disk f] w"
proof -
  obtain r1 w1 where k1: "kernel_call E (Alloc_tag_set (unat (fd_queue_depth fd) - 1)) w = (r1, w1)" by fastforce
  then have r1: "r1 = 0" using assms by (auto simp: openflash_register_block_device_def split: if_splits)
  obtain r2 w2 where k2: "kernel_call E Alloc_disk w1 = (r2, w2)" by fastforce
  then have r2: "r2 = 0" using assms k1 r1 by (auto simp: openflash_register_block_device_def split: if_splits)
  let ?l = "Queue_limits OPENFLASH_BLOCK_SIZE ((ucast (fd_queue_depth fd) - 1) * ucast OPENFLASH_SECTORS_PER_BLOCK)
    OPENFLASH_MAX_SGL_ENTRIES (fd_capabilities fd AND OPENFLASH_CAP_FLUSH \<noteq> 0) (fd_capabilities fd AND OPENFLASH_CAP_FUA \<noteq> 0)"
  let ?a = "Add_disk (fd_capacity_blocks fd * OPENFLASH_SECTORS_PER_BLOCK)"
  obtain r3 w3 where k3: "kernel_call E ?a (log ?l w2) = (r3, w3)" by fastforce
  have r: "r3 = 0" "fd' = fd\<lparr>fd_disk := True\<rparr>" "w' = w3"
    using assms k1 k2 k3 r1 r2 by (auto simp: openflash_register_block_device_def Let_def split: if_splits)
  then show "fd' = fd\<lparr>fd_disk := True\<rparr>" by simp
  have "w' = logs [Alloc_tag_set (unat (fd_queue_depth fd) - 1), Alloc_disk, ?l, ?a] w"
    using kernel_call_ok [OF k1 [unfolded r1]] kernel_call_ok [OF k2 [unfolded r2]] kernel_call_ok [OF k3 [unfolded r(1)]] r(3)
    by (simp add: log_def logs_def)
  then show "\<exists>a b c d e f. w' = logs [Alloc_tag_set (unat (fd_queue_depth fd) - 1), Alloc_disk, Queue_limits a b c d e, Add_disk f] w"
    by blast
qed

lemma probe_steps:
  assumes "openflash_probe E w = Some (0, drv, w')"
  obtains caps w1 version w2 fd1 w3 fd2 w4 fd3 w5 fd where
    "readq E OPENFLASH_REG_CAPABILITIES (logs [Enable_device, Set_dma_mask, Map_regions, Kcalloc 1] w) = (caps, w1)"
    "readl E OPENFLASH_REG_ABI_VERSION w1 = (version, w2)"
    "openflash_setup_admin_queue E (fresh_dev caps) (log Set_master w2) = Some (0, fd1, w3)"
    "openflash_admin_identify E fd1 w3 = Some (0, fd2, w4)" "openflash_setup_io_queue E fd2 w4 = Some (0, fd3, w5)"
    "openflash_register_block_device E fd3 w5 = (0, fd, w')" "drv = Some fd"
proof -
  obtain r1 x1 where k1: "kernel_call E Enable_device w = (r1, x1)" by fastforce
  then have r1: "r1 = 0" using assms by (auto simp: openflash_probe_def split: if_splits)
  obtain r2 x2 where k2: "kernel_call E Set_dma_mask x1 = (r2, x2)" by fastforce
  then have r2: "r2 = 0" using assms k1 r1 by (auto simp: openflash_probe_def split: if_splits)
  obtain r3 x3 where k3: "kernel_call E Map_regions x2 = (r3, x3)" by fastforce
  then have r3: "r3 = 0" using assms k1 k2 r1 r2 by (auto simp: openflash_probe_def split: if_splits)
  have x: "log (Kcalloc 1) x3 = logs [Enable_device, Set_dma_mask, Map_regions, Kcalloc 1] w"
    using kernel_call_ok [OF k1 [unfolded r1]] kernel_call_ok [OF k2 [unfolded r2]] kernel_call_ok [OF k3 [unfolded r3]]
    by (simp add: log_def logs_def)
  obtain caps w1 where q1: "readq E OPENFLASH_REG_CAPABILITIES (logs [Enable_device, Set_dma_mask, Map_regions, Kcalloc 1] w) = (caps, w1)"
    by fastforce
  obtain version w2 where q2: "readl E OPENFLASH_REG_ABI_VERSION w1 = (version, w2)" by fastforce
  have k: "e_kcalloc E (w_log x3)" and v: "version = OPENFLASH_ABI_VERSION"
    using assms k1 k2 k3 r1 r2 r3 q1 q2 x by (auto simp: openflash_probe_def Let_def errno_simps split: if_splits)
  note p = assms [unfolded openflash_probe_def k1 k2 k3 prod.case r1 r2 r3 x q1 q2 Let_def fresh_dev_def [symmetric]]
  obtain fd1 w3 where s1: "openflash_setup_admin_queue E (fresh_dev caps) (log Set_master w2) = Some (0, fd1, w3)"
    using p k v by (auto simp: bind_eq_Some_conv split: if_splits)
  obtain fd2 w4 where s2: "openflash_admin_identify E fd1 w3 = Some (0, fd2, w4)"
    using p k v s1 by (auto simp: bind_eq_Some_conv split: if_splits)
  obtain fd3 w5 where s3: "openflash_setup_io_queue E fd2 w4 = Some (0, fd3, w5)"
    using p k v s1 s2 by (auto simp: bind_eq_Some_conv split: if_splits)
  obtain ret fd w6 where s4: "openflash_register_block_device E fd3 w5 = (ret, fd, w6)" by (metis prod_cases3)
  have "ret = 0" "drv = Some fd" "w6 = w'" using p k v s1 s2 s3 s4 by (auto simp: bind_eq_Some_conv split: if_splits prod.splits)
  then show thesis using that q1 q2 s1 s2 s3 s4 by blast
qed

lemma driver_inv_probe:
  assumes "openflash_probe E w = Some (0, drv, w')" "w_log w = []"
  obtains fd where "drv = Some fd" "driver_inv fd w'"
proof -
  obtain caps w1 version w2 fd1 w3 fd2 w4 fd3 w5 fd where
    p: "readq E OPENFLASH_REG_CAPABILITIES (logs [Enable_device, Set_dma_mask, Map_regions, Kcalloc 1] w) = (caps, w1)"
    "readl E OPENFLASH_REG_ABI_VERSION w1 = (version, w2)"
    "openflash_setup_admin_queue E (fresh_dev caps) (log Set_master w2) = Some (0, fd1, w3)"
    "openflash_admin_identify E fd1 w3 = Some (0, fd2, w4)" "openflash_setup_io_queue E fd2 w4 = Some (0, fd3, w5)"
    "openflash_register_block_device E fd3 w5 = (0, fd, w')" "drv = Some fd"
    using probe_steps [OF assms(1)] by metis
  have d: "fd_queue_depth (fresh_dev caps) \<noteq> 0" by (simp add: fresh_dev_def OPENFLASH_DEFAULT_Q_DEPTH_def)
  note a = setup_admin_ok [OF p(3) d]
  have ne: "fd_queues fd1 \<noteq> []" using a(1) by auto
  obtain fdx where f: "admin_frame fd1 w3 fdx w4" "fd2 = fdx \<or> (\<exists>c. fd2 = fdx\<lparr>fd_capacity_blocks := c\<rparr>)"
    using admin_identify_frame [OF p(4) ne] by blast
  then have i: "length (fd_queues fd2) = 2" "hq fd2 1 = zero_hq" "fd_queue_depth fd2 \<noteq> 0" "cq_ok (hq fd2 0)"
    using a d by (auto simp: admin_frame_def hq_set_hq)
  have s: "io_inv (hq fd3 1) \<and> occupancy rq (hq fd3 1) = 0 \<and> length (fd_queues fd3) = 2 \<and> cq_ok (hq fd3 0)" for rq
    by (rule setup_io_ok [OF p(5) i])
  have l2: "w_log w2 = [Enable_device, Set_dma_mask, Map_regions, Kcalloc 1]" using p(1,2) assms(2) by simp
  have "extends not_rq w3 w4" using f(1) by (auto simp: admin_frame_def intro: extends_mono admin_not_rq)
  then have "extends not_rq (log Set_master w2) w5"
    using setup_admin_ext [OF p(3)] setup_io_ext [OF p(5) i(1)] extends_trans by blast
  then have "tally (start_weight rq) (w_log w5) = 0" for rq
    using tally_extends [of not_rq "log Set_master w2" w5 "start_weight rq"] by (simp add: l2)
  then have "driver_inv fd3 w5" using s by (simp add: driver_inv_def)
  then have "driver_inv fd3 w'" using register_ok(2) [OF p(6)] by (elim driver_inv_log) (auto intro!: ext_intros)
  then have "driver_inv fd w'" using register_ok(1) [OF p(6)] by (simp add: driver_inv_def)
  then show thesis using that p(7) by blast
qed

end
