(* ===== verification/Board_Probe.thy ===== *)
theory Board_Probe
  imports Board_Setup Host_Probe
begin

text \<open>
  Probe on the board: the buffers of the I/O queue, its creation, and the state a successful probe leaves.
\<close>

section \<open>The I/O queue\<close>

context board_env
begin

text \<open>The buffers of the I/O queue: rings and payload lists overlap nothing, and the completion ring is clear.\<close>

lemma io_buffers_on_board:
  assumes a1: "dma_alloc_coherent E (unat (fd_queue_depth fd) * 64) w = (Some sq, w1)"
    and a2: "dma_alloc_coherent E (unat (fd_queue_depth fd) * 64) w1 = (Some cq, w2)"
    and a3: "alloc_sgls E (unat (fd_queue_depth fd) - 1) 0 (replicate (unat (fd_queue_depth fd) - 1) zero_request)
       (log (Kcalloc (unat (fd_queue_depth fd) - 1)) w2) = (True, tag, rs, w3)"
    and q: "q = zero_hq\<lparr>hq_qid := 1, hq_depth := fd_queue_depth fd, hq_cq_phase := 1, hq_sq_dma := sq, hq_cq_dma := cq, hq_requests := rs\<rparr>"
    and fd: "fd_queues fd = [q0, zero_hq]" and srt: "sorted_wrt region_apart (coherent (w_log w))"
    and coh: "coherent (w_log w) = (hq_cq_dma q0, ring_size q0) # (hq_sq_dma q0, ring_size q0) # rest"
    and d: "1 < unat (fd_queue_depth fd)" "unat (fd_queue_depth fd) \<le> 4096" "0 < ring_size q0"
  shows "layout (set_hq 1 q fd) (log (Request_irq 1) w3)" "map r_rq rs = replicate (unat (fd_queue_depth fd) - 1) None"
    "mem_load (w_mem w3) cq (ring_size q) = replicate (ring_size q) 0"
    "mem_load (w_mem w3) (hq_cq_dma q0) (ring_size q0) = mem_load (w_mem w) (hq_cq_dma q0) (ring_size q0)"
    "w_dev w3 = w_dev w" "tally (map_weight a k dir) (w_log w3) = tally (map_weight a k dir) (w_log w)"
proof -
  let ?n = "unat (fd_queue_depth fd) * 64" and ?k = "unat (fd_queue_depth fd) - 1" and ?fd = "set_hq 1 q fd"
  note r1 = alloc_region [OF a1] and r2 = alloc_region [OF a2]
  obtain as cs where as: "length as = ?k" "w_dev w3 = w_dev w2" "rs = map2 (\<lambda>r a. r\<lparr>r_sgl_dma := a\<rparr>) (replicate ?k zero_request) as"
    "coherent (w_log w3) = rev (map (\<lambda>a. (a, sgl_table_size)) as) @ coherent (w_log w2)" "0 \<notin> set as"
    "w_log w3 = w_log (log (Kcalloc ?k) w2) @ cs" "list_all (\<lambda>c. \<exists>a. c = Dma_alloc a sgl_table_size) cs"
    "sorted_wrt region_apart (coherent (w_log w3))"
    "\<And>b k. 0 < k \<Longrightarrow> \<forall>a \<in> set as. apart b k a sgl_table_size \<Longrightarrow> mem_load (w_mem w3) b k = mem_load (w_mem w2) b k"
    using alloc_sgls_on_board [OF a3] r2(4) [OF r1(4) [OF srt]] by auto
  have tab: "map r_sgl_dma rs = as" "map r_rq rs = replicate ?k None" using replicate_tables [OF as(1)] as(3) by auto
  show "map r_rq rs = replicate ?k None" by (rule tab)
  show "w_dev w3 = w_dev w" using as(2) r1(2) r2(2) by simp
  have h: "hq ?fd 0 = q0" "hq ?fd 1 = q" using fd by (simp_all add: set_hq_def)
  have sz: "ring_size q = ?n" "0 < ?n" "?n \<le> 2 ^ 64" using d by (simp_all add: ring_size_def q)
  have t2: "map (\<lambda>r. (r_sgl_dma r, sgl_table_size)) rs = map (\<lambda>a. (a, sgl_table_size)) as"
    unfolding tab(1) [symmetric] by simp
  have reg: "coherent (w_log w3) = regions ?fd @ rest"
    using as(4) r1(1) r2(1) coh sz(1) unfolding regions_def h by (simp add: t2 q)
  then have srt3: "sorted_wrt region_apart (regions ?fd)" using as(8) by (simp add: sorted_wrt_append)
  have "list_all (\<lambda>r. r_sgl_dma r \<noteq> 0) rs" using as(5) tab(1) by (auto simp: list_all_iff image_iff)
  then show "layout ?fd (log (Request_irq 1) w3)" using reg srt3 unfolding layout_def h by (simp add: q)
  have "\<forall>a \<in> set as. apart a sgl_table_size cq ?n \<and> apart a sgl_table_size (hq_cq_dma q0) (ring_size q0)"
    using srt3 sz(1) unfolding regions_def h by (simp add: t2 q sorted_wrt_append)
  then have ap: "\<forall>a \<in> set as. apart cq ?n a sgl_table_size" "\<forall>a \<in> set as. apart (hq_cq_dma q0) (ring_size q0) a sgl_table_size"
    by (simp_all add: apart_sym [of cq] apart_sym [of "hq_cq_dma q0"])
  show "mem_load (w_mem w3) cq (ring_size q) = replicate (ring_size q) 0"
    using as(9) [OF sz(2) ap(1)] r2(6) [OF sz(3)] sz(1) by simp
  have "apart sq ?n (hq_cq_dma q0) (ring_size q0)" "apart cq ?n (hq_cq_dma q0) (ring_size q0)"
    using alloc_apart [OF dma_alloc_Some(1) [OF a1]] alloc_apart [OF dma_alloc_Some(1) [OF a2]] coh r1(1) by simp_all
  then show "mem_load (w_mem w3) (hq_cq_dma q0) (ring_size q0) = mem_load (w_mem w) (hq_cq_dma q0) (ring_size q0)"
    using as(9) [OF d(3) ap(2)] r1(5) [OF d(3)] r2(5) [OF d(3)] by (simp add: apart_sym)
  show "tally (map_weight a k dir) (w_log w3) = tally (map_weight a k dir) (w_log w)"
    using as(6) tally_no_maps [OF as(7)] dma_alloc_Some(2) [OF a1] dma_alloc_Some(2) [OF a2] by (simp add: map_weight_def)
qed

end

context board_env
begin

lemma io_created:
  assumes a: "dma_alloc_coherent E (unat (fd_queue_depth fd) * 64) w = (Some sq, w1)"
      "dma_alloc_coherent E (unat (fd_queue_depth fd) * 64) w1 = (Some cq, w2)"
      "alloc_sgls E (unat (fd_queue_depth fd) - 1) 0 (replicate (unat (fd_queue_depth fd) - 1) zero_request)
         (log (Kcalloc (unat (fd_queue_depth fd) - 1)) w2) = (True, tag, rs, w3)"
    and q: "q = zero_hq\<lparr>hq_qid := 1, hq_depth := fd_queue_depth fd, hq_cq_phase := 1, hq_sq_dma := sq, hq_cq_dma := cq, hq_requests := rs\<rparr>"
    and fd: "admin_state fd w n n" "fd_queues fd = [q0, zero_hq]"
    and d: "1 < unat (fd_queue_depth fd)" "unat (fd_queue_depth fd) \<le> 4096"
    and srt: "sorted_wrt region_apart (coherent (w_log w))"
    and coh: "coherent (w_log w) = (hq_cq_dma q0, ring_size q0) # (hq_sq_dma q0, ring_size q0) # rest"
    and bal: "\<And>a k dir. tally (map_weight a k dir) (w_log w) = 0"
  obtains fd' w' q1 where "openflash_create_io_queue E (set_hq 1 q fd) (log (Request_irq 1) w3) = Some (0, fd', w')"
    "board_inv fd' w' (Suc n) 0 []" "fd' = fd\<lparr>fd_queues := [q1, q]\<rparr>" "s_storage (w_state w') = s_storage (w_state w)"
    "s_capacity (w_state w') = s_capacity (w_state w)" "s_backing_file (w_state w') = s_backing_file (w_state w)"
proof -
  have e: "hq fd 0 = q0" "0 < ring_size q0" using fd by (auto simp: admin_state_def ring_size_def queue_sync_def)
  note b = io_buffers_on_board [OF a q fd(2) srt coh d e(2)]
  let ?fd = "set_hq 1 q fd" and ?w = "log (Request_irq 1) w3"
  have h: "hq ?fd 0 = q0" "hq ?fd 1 = q" "length (fd_queues ?fd) = 2" using fd(2) by (simp_all add: set_hq_def)
  have ad: "admin_state ?fd ?w n n" using admin_state_frame [OF fd(1), of ?fd ?w] e(1) h b(4,5) by simp
  have nz: "sq \<noteq> 0" "cq \<noteq> 0" using alloc_region(3) a by blast+
  have t: "tally (map_weight x k dir) (w_log ?w) = 0" for x k dir using b(6) bal by (simp add: map_weight_def)
  have p: "hq_qid (hq ?fd 1) = 1" "hq_sq_tail (hq ?fd 1) = 0" "hq_sq_dma (hq ?fd 1) \<noteq> 0" "hq_cq_dma (hq ?fd 1) \<noteq> 0"
      "1 < unat (hq_depth (hq ?fd 1))" "unat (hq_depth (hq ?fd 1)) \<le> 4096" "hq_cq_head (hq ?fd 1) = 0" "hq_cq_phase (hq ?fd 1) = 1"
      "map r_rq (hq_requests (hq ?fd 1)) = replicate (unat (hq_depth (hq ?fd 1)) - 1) None"
      "mem_load (w_mem ?w) (hq_cq_dma (hq ?fd 1)) (ring_size (hq ?fd 1)) = replicate (ring_size (hq ?fd 1)) 0"
    unfolding h using d nz b(2,3) by (simp_all add: q)
  obtain fd' w' q1 where c: "openflash_create_io_queue E ?fd ?w = Some (0, fd', w')" "board_inv fd' w' (Suc n) 0 []"
    "fd' = set_hq 0 q1 ?fd" "s_storage (w_state w') = s_storage (w_state ?w)"
    "s_capacity (w_state w') = s_capacity (w_state ?w)" "s_backing_file (w_state w') = s_backing_file (w_state ?w)"
    using board_created [OF ad b(1) p t] by metis
  have "fd' = fd\<lparr>fd_queues := [q1, q]\<rparr>" using fd(2) by (simp add: c(3) set_hq_def)
  then show thesis using that c b(5) by auto
qed

lemma setup_io_on_board:
  assumes "openflash_setup_io_queue E fd w = Some (0, fd', w')" "e_garbage E \<noteq> 0" "admin_state fd w n n" "fd_queues fd = [q0, zero_hq]"
    and d: "1 < unat (fd_queue_depth fd)" "unat (fd_queue_depth fd) \<le> 4096"
    and srt: "sorted_wrt region_apart (coherent (w_log w))"
    and coh: "coherent (w_log w) = (hq_cq_dma q0, ring_size q0) # (hq_sq_dma q0, ring_size q0) # rest"
    and bal: "\<And>a k dir. tally (map_weight a k dir) (w_log w) = 0"
  shows "board_inv fd' w' (Suc n) 0 [] \<and> (\<exists>q1 q2. fd' = fd\<lparr>fd_queues := [q1, q2], fd_nr_queues := 2\<rparr>) \<and>
    s_storage (w_state w') = s_storage (w_state w) \<and> s_capacity (w_state w') = s_capacity (w_state w) \<and>
    s_backing_file (w_state w') = s_backing_file (w_state w)"
proof -
  have e: "hq fd 1 = zero_hq" using assms(4) by simp
  obtain sq cq w1 w2 tag rs w3 q fd2 where a: "dma_alloc_coherent E (unat (fd_queue_depth fd) * 64) w = (Some sq, w1)"
      "dma_alloc_coherent E (unat (fd_queue_depth fd) * 64) w1 = (Some cq, w2)"
      "alloc_sgls E (unat (fd_queue_depth fd) - 1) 0 (replicate (unat (fd_queue_depth fd) - 1) zero_request)
         (log (Kcalloc (unat (fd_queue_depth fd) - 1)) w2) = (True, tag, rs, w3)"
    and q: "q = zero_hq\<lparr>hq_qid := 1, hq_depth := fd_queue_depth fd, hq_cq_phase := 1, hq_sq_dma := sq, hq_cq_dma := cq, hq_requests := rs\<rparr>"
    and cr: "openflash_create_io_queue E (set_hq 1 q fd) (log (Request_irq 1) w3) = Some (0, fd2, w')" and fd': "fd' = fd2\<lparr>fd_nr_queues := 2\<rparr>"
    using setup_io_steps [OF assms(1,2)] unfolding e by metis
  obtain q1 where c: "board_inv fd2 w' (Suc n) 0 []" "fd2 = fd\<lparr>fd_queues := [q1, q]\<rparr>" "s_storage (w_state w') = s_storage (w_state w)"
    "s_capacity (w_state w') = s_capacity (w_state w)" "s_backing_file (w_state w') = s_backing_file (w_state w)"
    using io_created [OF a q assms(3,4) d srt coh bal] cr by (metis option.inject prod.inject)
  have "board_inv fd' w' (Suc n) 0 []"
    using c(1) by (simp add: fd' board_inv_def admin_state_def io_state_def layout_def regions_def dma_balanced_def)
  moreover have "fd' = fd\<lparr>fd_queues := [q1, q], fd_nr_queues := 2\<rparr>" by (simp add: fd' c(2))
  ultimately show ?thesis using c by auto
qed

end

lemma setup_admin_no_map:
  assumes "openflash_setup_admin_queue E fd w = Some (0, fd', w')"
  shows "tally (map_weight a n d) (w_log w') = tally (map_weight a n d) (w_log w)"
proof -
  obtain sq cq w1 w2 w3 w4 q where s: "dma_alloc_coherent E (unat (fd_queue_depth fd) * 64) (log (Kcalloc 2) w) = (Some sq, w1)"
    "dma_alloc_coherent E (unat (fd_queue_depth fd) * 64) w1 = (Some cq, w2)"
    "w3 = logs [Alloc_irq_vectors, Request_irq 0] w2" "start_controller E q w3 = Some (True, w')"
    using setup_admin_steps [OF assms] by metis
  have "extends admin_call w3 w'" using start_controller_log [OF s(4)] by (simp add: extends_def)
  from tally_map_admin [OF this] show ?thesis
    using dma_alloc_log(1) [OF s(1)] dma_alloc_log(1) [OF s(2)] by (simp add: s(3) map_weight_def)
qed

section \<open>Probe\<close>

text \<open>The invariant looks at the queues, the memory, the device and the DMA calls of the history.\<close>

lemma board_inv_log:
  assumes "board_inv fd w n c ps" "fd_queues fd' = fd_queues fd" "w_mem w' = w_mem w" "w_dev w' = w_dev w"
    "coherent (w_log w') = coherent (w_log w)" "\<And>a k dir. tally (map_weight a k dir) (w_log w') = tally (map_weight a k dir) (w_log w)"
  shows "board_inv fd' w' n c ps"
  using assms by (simp add: board_inv_def admin_state_def io_state_def layout_def regions_def dma_balanced_def)

context board_env
begin

lemma capacity_blocks: "state_ok s \<Longrightarrow> s_capacity s div OF_BLOCK_SIZE \<noteq> 0"
proof -
  assume "state_ok s"
  then have "unat (s_capacity s div OF_BLOCK_SIZE) \<noteq> 0" by (simp add: state_ok_def media_ok_def OF_BLOCK_SIZE_def unat_div div_greater_zero_iff)
  then show ?thesis by (metis unsigned_0)
qed

text \<open>The first half of probe: the admin queue runs and the device is identified.\<close>

lemma identified:
  assumes "openflash_setup_admin_queue E (fresh_dev caps) w2 = Some (0, fd1, w3)" "coherent (w_log w2) = []"
    "\<And>a k dir. tally (map_weight a k dir) (w_log w2) = 0" "state_ok (w_state w2)" "admin_reset (w_state w2)"
  obtains fd2 w4 q where "openflash_admin_identify E fd1 w3 = Some (0, fd2, w4)" "admin_state fd2 w4 1 1"
    "fd2 = (fresh_dev caps)\<lparr>fd_queues := [q, zero_hq], fd_nr_queues := 1, fd_capacity_blocks := s_capacity (w_state w2) div OF_BLOCK_SIZE\<rparr>"
    "coherent (w_log w4) = coherent (w_log w3)" "coherent (w_log w4) = [(hq_cq_dma q, ring_size q), (hq_sq_dma q, ring_size q)]"
    "sorted_wrt region_apart (coherent (w_log w4))" "\<And>a k dir. tally (map_weight a k dir) (w_log w4) = 0"
    "s_storage (w_state w4) = s_storage (w_state w2)" "s_capacity (w_state w4) = s_capacity (w_state w2)"
    "s_backing_file (w_state w4) = s_backing_file (w_state w2)"
proof -
  have d: "1 < unat (fd_queue_depth (fresh_dev caps))" "unat (fd_queue_depth (fresh_dev caps)) \<le> 4096"
    by (simp_all add: fresh_dev_def OPENFLASH_DEFAULT_Q_DEPTH_def)
  obtain q where a: "fd1 = (fresh_dev caps)\<lparr>fd_queues := [q, zero_hq], fd_nr_queues := 1\<rparr>" "admin_state fd1 w3 0 0"
    "coherent (w_log w3) = [(hq_cq_dma q, ring_size q), (hq_sq_dma q, ring_size q)]" "w_state w3 = started q (w_state w2)"
    using setup_admin_on_board [OF assms(1,4,5) d] unfolding assms(2) by metis
  have st: "s_storage (w_state w3) = s_storage (w_state w2)" "s_capacity (w_state w3) = s_capacity (w_state w2)"
    "s_backing_file (w_state w3) = s_backing_file (w_state w2)" by (simp_all add: a(4) started_def)
  note cap = capacity_blocks [OF assms(4)]
  obtain fd2 w4 y where ii: "openflash_admin_identify E fd1 w3 = Some (if s_capacity (w_state w3) div OF_BLOCK_SIZE = 0 then - ENODEV else 0, fd2, w4)"
    "admin_state fd2 w4 (Suc 0) (Suc 0)" "w_state w4 = upd_queue 0 (\<lambda>q. (advance_queue q)\<lparr>q_cq_head := y\<rparr>) (w_state w3)"
    "s_capacity (w_state w3) div OF_BLOCK_SIZE \<noteq> 0 \<longrightarrow> fd_capacity_blocks fd2 = s_capacity (w_state w3) div OF_BLOCK_SIZE"
    using identify_on_board [OF a(2)] by metis
  have i: "openflash_admin_identify E fd1 w3 = Some (0, fd2, w4)" "admin_state fd2 w4 1 1"
    "w_state w4 = upd_queue 0 (\<lambda>q. (advance_queue q)\<lparr>q_cq_head := y\<rparr>) (w_state w3)"
    "fd_capacity_blocks fd2 = s_capacity (w_state w2) div OF_BLOCK_SIZE"
    using ii cap st(2) by simp_all
  obtain fdx q' where f: "fdx = set_hq 0 q' fd1" "ring_of q' = ring_of q" "extends admin_call w3 w4"
      "fd2 = fdx \<or> (\<exists>c. fd2 = fdx\<lparr>fd_capacity_blocks := c\<rparr>)"
    using admin_identify_frame [OF i(1)] a(1) by (auto simp: admin_frame_def)
  have fd2: "fd2 = (fresh_dev caps)\<lparr>fd_queues := [q', zero_hq], fd_nr_queues := 1, fd_capacity_blocks := s_capacity (w_state w2) div OF_BLOCK_SIZE\<rparr>"
    using f(1,4) a(1) i(4) by (auto simp: set_hq_def)
  have c3: "coherent (w_log w4) = coherent (w_log w3)" by (rule coherent_admin [OF f(3)])
  have "hq_cq_dma q' = hq_cq_dma q" "hq_sq_dma q' = hq_sq_dma q" "ring_size q' = ring_size q" using f(2) by (simp_all add: ring_of_def ring_size_def)
  then have c4: "coherent (w_log w4) = [(hq_cq_dma q', ring_size q'), (hq_sq_dma q', ring_size q')]" using c3 a(3) by simp
  have s4: "sorted_wrt region_apart (coherent (w_log w4))" unfolding c4 using i(2) fd2 by (simp add: admin_state_def ring_size_def apart_sym)
  have t4: "tally (map_weight x k dir) (w_log w4) = 0" for x k dir
    using tally_map_admin [OF f(3)] setup_admin_no_map [OF assms(1)] assms(3) by simp
  show thesis by (rule that [OF i(1,2) fd2 c3 c4 s4 t4]) (simp_all add: i(3) st)
qed

lemma probe_board:
  assumes "openflash_probe E w = Some (0, drv, w')" "e_garbage E \<noteq> 0" "w_log w = []" "state_ok (w_state w)" "admin_reset (w_state w)"
  shows "\<exists>fd. drv = Some fd \<and> board_inv fd w' 2 0 [] \<and> fd_nr_queues fd = 2 \<and> fd_disk fd \<and> fd_capabilities fd = OF_CAPABILITIES \<and>
    fd_capacity_blocks fd = s_capacity (w_state w) div OF_BLOCK_SIZE \<and> \<not> fd_reset_pending fd \<and>
    s_storage (w_state w') = s_storage (w_state w) \<and> s_capacity (w_state w') = s_capacity (w_state w) \<and>
    s_backing_file (w_state w') = s_backing_file (w_state w)"
proof -
  obtain caps w1 version w2 fd1 w3 fd2 w4 fd3 w5 fd where
    p: "readq E OPENFLASH_REG_CAPABILITIES (logs [Enable_device, Set_dma_mask, Map_regions, Kcalloc 1] w) = (caps, w1)"
    "readl E OPENFLASH_REG_ABI_VERSION w1 = (version, w2)"
    "openflash_setup_admin_queue E (fresh_dev caps) (log Set_master w2) = Some (0, fd1, w3)"
    "openflash_admin_identify E fd1 w3 = Some (0, fd2, w4)" "openflash_setup_io_queue E fd2 w4 = Some (0, fd3, w5)"
    "openflash_register_block_device E fd3 w5 = (0, fd, w')" "drv = Some fd"
    using probe_steps [OF assms(1)] by metis
  have w2: "w2 = logs [Enable_device, Set_dma_mask, Map_regions, Kcalloc 1] w" "caps = OF_CAPABILITIES"
    using p(1,2) by (auto simp: board_readl [OF on_board] openflash_mmio_read_def of_consts)
  have s2: "coherent (w_log (log Set_master w2)) = []" "\<And>a k dir. tally (map_weight a k dir) (w_log (log Set_master w2)) = 0"
    "state_ok (w_state (log Set_master w2))" "admin_reset (w_state (log Set_master w2))" "w_state (log Set_master w2) = w_state w"
    using assms(3-5) by (simp_all add: w2 coherent_def map_weight_def)
  obtain fdi wi q where ii: "openflash_admin_identify E fd1 w3 = Some (0, fdi, wi)" "admin_state fdi wi 1 1"
    "fdi = (fresh_dev caps)\<lparr>fd_queues := [q, zero_hq], fd_nr_queues := 1,
      fd_capacity_blocks := s_capacity (w_state w) div OF_BLOCK_SIZE\<rparr>"
    "coherent (w_log wi) = coherent (w_log w3)" "coherent (w_log wi) = [(hq_cq_dma q, ring_size q), (hq_sq_dma q, ring_size q)]"
    "sorted_wrt region_apart (coherent (w_log wi))" "\<And>a k dir. tally (map_weight a k dir) (w_log wi) = 0"
    "s_storage (w_state wi) = s_storage (w_state w)" "s_capacity (w_state wi) = s_capacity (w_state w)"
    "s_backing_file (w_state wi) = s_backing_file (w_state w)"
    by (rule identified [OF p(3) s2(1-4), unfolded s2(5)], rule that)
  then have "fdi = fd2" "wi = w4" using p(4) by simp_all
  note i = ii(2,3,5-10) [unfolded this]
  have d: "fd_queues fd2 = [q, zero_hq]" "1 < unat (fd_queue_depth fd2)" "unat (fd_queue_depth fd2) \<le> 4096"
    by (simp_all add: i(2) fresh_dev_def OPENFLASH_DEFAULT_Q_DEPTH_def)
  have io: "board_inv fd3 w5 2 0 [] \<and> (\<exists>q1 q2. fd3 = fd2\<lparr>fd_queues := [q1, q2], fd_nr_queues := 2\<rparr>) \<and>
    s_storage (w_state w5) = s_storage (w_state w4) \<and> s_capacity (w_state w5) = s_capacity (w_state w4) \<and>
    s_backing_file (w_state w5) = s_backing_file (w_state w4)"
    using setup_io_on_board [OF p(5) assms(2) i(1) d i(4,3,5)] by (simp add: numeral_2_eq_2)
  have "board_inv fd w' 2 0 []"
    using io register_ok [OF p(6)] by (elim conjE board_inv_log) (auto simp: map_weight_def)
  then show ?thesis using io i register_ok [OF p(6)] p(7) w2(2) by (auto simp: fresh_dev_def)
qed

end

end
