(* ===== verification/Board_Kernel.thy ===== *)
theory Board_Kernel
  imports Board_Probe
begin

text \<open>
  A concrete kernel for the board.  It satisfies the laws of \<open>board_env\<close>, so that the statements about the
  board hold for it without further assumptions, and under it probe succeeds.
\<close>

section \<open>A kernel for the board\<close>

text \<open>A kernel that allocates coherent memory upwards from 1 MiB and maps pages at their own address, as long as
  that keeps buffers and pages apart.  Every other call succeeds.\<close>

definition coherent_total :: "kcall list \<Rightarrow> nat" where
  "coherent_total l = sum_list (map snd (coherent l))"

definition board_kernel :: "board env" where
  "board_kernel = \<lparr>bar_write = board_write, bar_read = board_read,
     e_alloc = (\<lambda>l n. let a = of_nat (0x100000 + coherent_total l) in
       if a \<noteq> 0 \<and> list_all (\<lambda>(b, k). apart a n b k) (coherent l) then Some a else None),
     e_kcalloc = (\<lambda>_. True),
     e_map = (\<lambda>l v. let a = bv_addr v in
       if a \<noteq> 0 \<and> list_all (\<lambda>(b, k). apart a (unat (bv_len v)) b k) (coherent l) \<and>
          list_all (\<lambda>(v', a', d). apart (bv_addr v) (unat (bv_len v)) (bv_addr v') (unat (bv_len v')) \<longrightarrow>
            apart a (unat (bv_len v)) a' (unat (bv_len v'))) (mapped l)
       then Some a else None),
     e_ret = (\<lambda>_. 0), e_irqs = (\<lambda>_. 1), e_polls = (\<lambda>_. 0),
     e_frozen = (\<lambda>l. list_all (\<lambda>c. case c of Start_request rq \<Rightarrow> tally (start_weight rq) l = 0 | _ \<Rightarrow> True) l),
     e_garbage = 1\<rparr>"

interpretation board: board_env board_kernel
proof
  show "apart a n b k" if "e_alloc board_kernel l n = Some a" "(b, k) \<in> set (coherent l)" for l n a b k
    using that by (auto simp: board_kernel_def Let_def list_all_iff split: if_splits)
  show "apart a (unat (bv_len v)) b k" if "e_map board_kernel l v = Some a" "(b, k) \<in> set (coherent l)" for l v a b k
    using that by (auto simp: board_kernel_def Let_def list_all_iff split: if_splits)
  show "apart a (unat (bv_len v)) a' (unat (bv_len v'))"
    if "e_map board_kernel l v = Some a" "(v', a', d) \<in> set (mapped l)"
      "apart (bv_addr v) (unat (bv_len v)) (bv_addr v') (unat (bv_len v'))" for l v a v' a' d
    using that by (auto simp: board_kernel_def Let_def list_all_iff split: if_splits)
qed (auto simp: board_kernel_def on_board_def Let_def split: if_splits)

definition packed :: "kcall list \<Rightarrow> bool" where
  "packed l \<longleftrightarrow> coherent_total l \<le> 2 ^ 30 \<and>
     list_all (\<lambda>(b, k). 0 < k \<and> 0x100000 \<le> unat b \<and> unat b + k \<le> 0x100000 + coherent_total l) (coherent l)"

lemma packed_alloc:
  assumes "packed l" "n \<le> 2 ^ 20" "0 < n"
  shows "e_alloc board_kernel l n = Some (of_nat (0x100000 + coherent_total l))"
    "coherent_total l + n \<le> 2 ^ 30 \<Longrightarrow> packed (l @ [Dma_alloc (of_nat (0x100000 + coherent_total l)) n])"
proof -
  define a :: u64 where "a = of_nat (0x100000 + coherent_total l)"
  have t: "coherent_total l \<le> 2 ^ 30" using assms(1) by (simp add: packed_def)
  have u: "unat a = 0x100000 + coherent_total l" unfolding a_def using t by (intro unat_of_nat_u64) simp
  have r: "0 < k" "0x100000 \<le> unat b" "unat b + k \<le> unat a" if "(b, k) \<in> set (coherent l)" for b k
    using assms(1) that unfolding u by (auto simp: packed_def list_all_iff)
  have "apart a n b k" if bk: "(b, k) \<in> set (coherent l)" for b k
  proof -
    have ne: "a \<noteq> b" using r(1,3) [OF bk] by auto
    have "unat (a - b) = unat a - unat b" using r(3) [OF bk] by (intro unat_sub) (simp add: word_le_nat_alt)
    then have "k \<le> unat (a - b)" "unat (a - b) \<le> 2 ^ 30" using r(2,3) [OF bk] u t by linarith+
    then show ?thesis using unat_diff_swap [OF ne] assms(2) by (simp add: apart_def)
  qed
  moreover have "a \<noteq> 0" using u by auto
  ultimately have "e_alloc board_kernel l n = Some a" by (auto simp: board_kernel_def Let_def list_all_iff a_def)
  then show "e_alloc board_kernel l n = Some (of_nat (0x100000 + coherent_total l))" by (simp add: a_def)
  have "packed (l @ [Dma_alloc a n])" if "coherent_total l + n \<le> 2 ^ 30"
    using that assms(3) r u by (fastforce simp: packed_def coherent_total_def list_all_iff)
  then show "packed (l @ [Dma_alloc (of_nat (0x100000 + coherent_total l)) n])" if "coherent_total l + n \<le> 2 ^ 30"
    using that by (simp add: a_def)
qed

lemma packed_dma_alloc:
  assumes "packed (w_log w)" "n \<le> 2 ^ 20" "0 < n" "coherent_total (w_log w) + n \<le> 2 ^ 30"
  obtains a w' where "dma_alloc_coherent board_kernel n w = (Some a, w')" "packed (w_log w')"
    "coherent_total (w_log w') = coherent_total (w_log w) + n"
  using packed_alloc [OF assms(1-3)] assms(4) that by (simp add: dma_alloc_coherent_def coherent_total_def)

lemma packed_alloc_sgls:
  "packed (w_log w) \<Longrightarrow> coherent_total (w_log w) + n * sgl_table_size \<le> 2 ^ 30 \<Longrightarrow>
   \<exists>tag' rs' w'. alloc_sgls board_kernel n tag rs w = (True, tag', rs', w')"
proof (induction n arbitrary: tag rs w)
  case 0
  then show ?case by simp
next
  case (Suc n)
  have s: "sgl_table_size = 256" by (simp add: of_consts)
  obtain a w1 where a: "dma_alloc_coherent board_kernel sgl_table_size w = (Some a, w1)" "packed (w_log w1)"
    "coherent_total (w_log w1) = coherent_total (w_log w) + sgl_table_size"
    using packed_dma_alloc [OF Suc.prems(1), of sgl_table_size] Suc.prems(2) s by auto
  then show ?case using Suc.IH [OF a(2)] Suc.prems(2) by simp
qed

lemma packed_cong: "coherent l' = coherent l \<Longrightarrow> packed l' = packed l" "coherent l' = coherent l \<Longrightarrow> coherent_total l' = coherent_total l"
  by (simp_all add: packed_def coherent_total_def)

lemma board_kernel_simps [simp]:
  "kernel_call board_kernel c w = (0, log c w)" "e_kcalloc board_kernel l" "e_garbage board_kernel = 1"
  by (simp_all add: kernel_call_def board_kernel_def call_failed_def)

lemma board_setup_admin:
  assumes "packed (w_log w)" "coherent_total (w_log w) = 0" "state_ok (w_state w)"
    and d: "1 < unat (fd_queue_depth fd)" "unat (fd_queue_depth fd) \<le> 4096"
  obtains fd' w' where "openflash_setup_admin_queue board_kernel fd w = Some (0, fd', w')" "packed (w_log w')"
    "coherent_total (w_log w') = 2 * (unat (fd_queue_depth fd) * 64)"
proof -
  let ?n = "unat (fd_queue_depth fd) * 64" and ?w = "log (Kcalloc 2) w"
  have n: "?n \<le> 2 ^ 20" "0 < ?n" using d by simp_all
  have p: "packed (w_log ?w)" "coherent_total (w_log ?w) = 0" using assms(1,2) packed_cong [of "w_log ?w" "w_log w"] by simp_all
  obtain sq w1 where a1: "dma_alloc_coherent board_kernel ?n ?w = (Some sq, w1)" "packed (w_log w1)" "coherent_total (w_log w1) = ?n"
    using packed_dma_alloc [OF p(1) n] p(2) n(1) by auto
  obtain cq w2 where a2: "dma_alloc_coherent board_kernel ?n w1 = (Some cq, w2)" "packed (w_log w2)" "coherent_total (w_log w2) = 2 * ?n"
    using packed_dma_alloc [OF a1(2) n] a1(3) n(1) by auto
  let ?q = "zero_hq\<lparr>hq_qid := 0, hq_depth := fd_queue_depth fd, hq_cq_phase := 1, hq_admin_done := 0, hq_sq_dma := sq, hq_cq_dma := cq\<rparr>"
  let ?w2 = "log (Request_irq 0) (log Alloc_irq_vectors w2)"
  have s: "state_ok (w_state ?w2)" using assms(3) dma_alloc_Some(2) [OF a1(1)] dma_alloc_Some(2) [OF a2(1)] by simp
  have dq: "1 < unat (hq_depth ?q)" "unat (hq_depth ?q) \<le> 4096" using d by simp_all
  obtain w3 where st: "start_controller board_kernel ?q ?w2 = Some (True, w3)" "extends admin_call ?w2 w3"
    using start_controller_on_board [OF board.on_board s dq] by blast
  have "coherent (w_log w3) = coherent (w_log w2)" using coherent_admin [OF st(2)] by simp
  then show thesis using that a1 a2 st(1) packed_cong [of "w_log w3" "w_log w2"]
    by (simp add: openflash_setup_admin_queue_def Let_def set_hq_def)
qed

lemma board_setup_io:
  assumes "packed (w_log w)" "coherent_total (w_log w) \<le> 2 ^ 20" "admin_state fd w n n" "fd_queues fd = [q0, zero_hq]"
    and d: "1 < unat (fd_queue_depth fd)" "unat (fd_queue_depth fd) \<le> 4096"
    and "sorted_wrt region_apart (coherent (w_log w))"
    and "coherent (w_log w) = (hq_cq_dma q0, ring_size q0) # (hq_sq_dma q0, ring_size q0) # rest"
    and "\<And>a k dir. tally (map_weight a k dir) (w_log w) = 0"
  shows "\<exists>fd' w'. openflash_setup_io_queue board_kernel fd w = Some (0, fd', w')"
proof -
  let ?n = "unat (fd_queue_depth fd) * 64" and ?k = "unat (fd_queue_depth fd) - 1"
  have n: "?n \<le> 2 ^ 20" "0 < ?n" using d by simp_all
  obtain sq w1 where a1: "dma_alloc_coherent board_kernel ?n w = (Some sq, w1)" "packed (w_log w1)"
    "coherent_total (w_log w1) = coherent_total (w_log w) + ?n"
    using packed_dma_alloc [OF assms(1) n] assms(2) n(1) by auto
  obtain cq w2 where a2: "dma_alloc_coherent board_kernel ?n w1 = (Some cq, w2)" "packed (w_log w2)"
    "coherent_total (w_log w2) = coherent_total (w_log w) + 2 * ?n"
    using packed_dma_alloc [OF a1(2) n] a1(3) assms(2) n(1) by (auto simp: algebra_simps)
  have s: "sgl_table_size = 256" by (simp add: of_consts)
  have "packed (w_log (log (Kcalloc ?k) w2))" "coherent_total (w_log (log (Kcalloc ?k) w2)) + ?k * sgl_table_size \<le> 2 ^ 30"
    using a2 packed_cong [of "w_log (log (Kcalloc ?k) w2)" "w_log w2"] assms(2) d(2) unfolding s by simp_all
  then obtain tag rs w3 where a3: "alloc_sgls board_kernel ?k 0 (replicate ?k zero_request) (log (Kcalloc ?k) w2) = (True, tag, rs, w3)"
    using packed_alloc_sgls by blast
  let ?q = "zero_hq\<lparr>hq_qid := 1, hq_depth := fd_queue_depth fd, hq_cq_phase := 1, hq_sq_dma := sq, hq_cq_dma := cq, hq_requests := rs\<rparr>"
  obtain fd' w' where "openflash_create_io_queue board_kernel (set_hq 1 ?q fd) (log (Request_irq 1) w3) = Some (0, fd', w')"
    using board.io_created [OF a1(1) a2(1) a3 refl assms(3,4) d assms(7-9)] by metis
  then show ?thesis using a1(1) a2(1) a3 assms(4) by (simp add: openflash_setup_io_queue_def Let_def)
qed

text \<open>Under this kernel probe succeeds on every realized device.\<close>

lemma board_probe_succeeds:
  assumes "w_log w = []" "state_ok (w_state w)" "admin_reset (w_state w)"
  shows "\<exists>fd w'. openflash_probe board_kernel w = Some (0, Some fd, w')"
proof -
  define w2 where "w2 = logs [Enable_device, Set_dma_mask, Map_regions, Kcalloc 1, Set_master] w"
  have c: "coherent (w_log w2) = []" "\<And>a k dir. tally (map_weight a k dir) (w_log w2) = 0" "state_ok (w_state w2)" "admin_reset (w_state w2)"
    using assms by (simp_all add: w2_def coherent_def map_weight_def)
  have p: "packed (w_log w2)" "coherent_total (w_log w2) = 0" using c(1) by (simp_all add: packed_def coherent_total_def)
  have d: "1 < unat (fd_queue_depth (fresh_dev OF_CAPABILITIES))" "unat (fd_queue_depth (fresh_dev OF_CAPABILITIES)) \<le> 4096"
    "unat (fd_queue_depth (fresh_dev OF_CAPABILITIES)) = 128"
    by (simp_all add: fresh_dev_def OPENFLASH_DEFAULT_Q_DEPTH_def)
  obtain fd1 w3 where s1: "openflash_setup_admin_queue board_kernel (fresh_dev OF_CAPABILITIES) w2 = Some (0, fd1, w3)"
    "packed (w_log w3)" "coherent_total (w_log w3) = 16384"
    using board_setup_admin [OF p c(3) d(1,2)] d(3) by auto
  obtain fd2 w4 q where s2: "openflash_admin_identify board_kernel fd1 w3 = Some (0, fd2, w4)" "admin_state fd2 w4 1 1"
    "fd2 = (fresh_dev OF_CAPABILITIES)\<lparr>fd_queues := [q, zero_hq], fd_nr_queues := 1, fd_capacity_blocks := s_capacity (w_state w2) div OF_BLOCK_SIZE\<rparr>"
    "coherent (w_log w4) = coherent (w_log w3)" "coherent (w_log w4) = [(hq_cq_dma q, ring_size q), (hq_sq_dma q, ring_size q)]"
    "sorted_wrt region_apart (coherent (w_log w4))" "\<And>a k dir. tally (map_weight a k dir) (w_log w4) = 0"
    by (rule board.identified [OF s1(1) c], rule that)
  have e: "fd_queues fd2 = [q, zero_hq]" "fd_queue_depth fd2 = fd_queue_depth (fresh_dev OF_CAPABILITIES)" by (simp_all add: s2(3))
  have "packed (w_log w4)" "coherent_total (w_log w4) \<le> 2 ^ 20" using s1(2,3) packed_cong [OF s2(4)] by simp_all
  then obtain fd3 w5 where s3: "openflash_setup_io_queue board_kernel fd2 w4 = Some (0, fd3, w5)"
    using board_setup_io [OF _ _ s2(2) e(1) _ _ s2(6,5,7)] d e(2) by auto
  have "log Set_master (log (Kcalloc (Suc 0)) (log Map_regions (log Set_dma_mask (log Enable_device w)))) = w2"
    by (simp add: w2_def log_def logs_def)
  then show ?thesis using s1(1) s2(1) s3
    by (simp add: openflash_probe_def board_readl [OF board.on_board] openflash_mmio_read_def of_consts
        openflash_register_block_device_def Let_def fresh_dev_def)
qed

end
