(* ===== verification/Driver_Spec.thy ===== *)
theory Driver_Spec
  imports Board_Kernel
begin

text \<open>
  The properties of the Linux driver: runs of a probed driver against an arbitrary device, and probe on the board.
\<close>

section \<open>Runs of the driver\<close>

text \<open>Everything that can happen to a probed driver, in any order: the block layer submits a request, an interrupt
  arrives, a request times out, recovery runs, and at any moment the device and other software change memory
  and device state arbitrarily.\<close>

inductive driver_run :: "'d env \<Rightarrow> openflash_dev \<Rightarrow> 'd world \<Rightarrow> bool" for E where
  probed: "w_log w = [] \<Longrightarrow> openflash_probe E w = Some (0, Some fd, w') \<Longrightarrow> driver_run E fd w'"
| outside: "driver_run E fd w \<Longrightarrow> driver_run E fd (w\<lparr>w_mem := m, w_dev := d\<rparr>)"
| submitted: "driver_run E fd w \<Longrightarrow> rq_tag rq + 1 < 2 ^ 16 \<Longrightarrow> openflash_queue_rq E rq fd w = Some (st, fd', w') \<Longrightarrow>
    driver_run E fd' w'"
| io_interrupt: "driver_run E fd w \<Longrightarrow> openflash_io_irq E fd w = Some (r, fd', w') \<Longrightarrow> driver_run E fd' w'"
| admin_interrupt: "driver_run E fd w \<Longrightarrow> openflash_irq E fd w = Some (r, fd', w') \<Longrightarrow> driver_run E fd' w'"
| timed_out: "driver_run E fd w \<Longrightarrow> openflash_timeout fd w = (fd', w') \<Longrightarrow> driver_run E fd' w'"
| recovered: "driver_run E fd w \<Longrightarrow> openflash_reset_work E fd w = Some (fd', w') \<Longrightarrow> driver_run E fd' w'"

lemma driver_run_inv: "driver_run E fd w \<Longrightarrow> driver_inv fd w"
proof (induction rule: driver_run.induct)
  case (probed w fd w')
  then show ?case using driver_inv_probe [OF probed(2,1)] by blast
next
  case (outside fd w m d)
  then show ?case by (simp add: driver_inv_def)
next
  case (submitted fd w rq st fd' w')
  then show ?case using driver_inv_queue_rq by blast
next
  case (io_interrupt fd w r fd' w')
  then show ?case using driver_inv_io_irq by blast
next
  case (admin_interrupt fd w r fd' w')
  then have "fd_queues fd \<noteq> []" by (auto simp: driver_inv_def)
  then show ?case using driver_inv_admin_frame [OF _ openflash_irq_frame] admin_interrupt by blast
next
  case (timed_out fd w fd' w')
  then have e: "extends not_rq w w'" and "fd_queues fd' = fd_queues fd"
    by (auto simp: openflash_timeout_def split: if_splits intro!: ext_intros)
  then show ?case using driver_inv_log [OF timed_out.IH e] by (simp add: driver_inv_def)
next
  case (recovered fd w fd' w')
  then show ?case using driver_inv_reset_work by blast
qed

text \<open>C22: Requests are neither lost nor ended twice.  In every run of the driver, whatever the device writes into
  memory and whatever stale, repeated or forged completions it posts, the number of times a request was
  started minus the number of times it was ended is 1 if the request is in the table slot of its tag, and 0
  otherwise.\<close>

theorem requests_accounted:
  assumes "driver_run E fd w"
  shows "tally (start_weight rq) (w_log w) =
    (if rq_tag rq < length (hq_requests (hq fd 1)) \<and> r_rq (hq_requests (hq fd 1) ! rq_tag rq) = Some rq then 1 else 0)"
proof -
  have i: "driver_inv fd w" by (rule driver_run_inv [OF assms])
  then have q: "io_inv (hq fd 1)" and t: "tally (start_weight rq) (w_log w) = occupancy rq (hq fd 1)" by (simp_all add: driver_inv_def)
  have "(\<exists>i < length (hq_requests (hq fd 1)). r_rq (hq_requests (hq fd 1) ! i) = Some rq) =
      (rq_tag rq < length (hq_requests (hq fd 1)) \<and> r_rq (hq_requests (hq fd 1) ! rq_tag rq) = Some rq)"
    using q unfolding io_inv_def by metis
  then show ?thesis unfolding t occupancy_eq [OF q] by simp
qed

section \<open>Probe\<close>

lemma realize_ready:
  assumes "openflash_realize P h s0 = (None, h1, s)"
  shows "state_ok s" "admin_reset s"
proof -
  show "state_ok s" using realize_state_ok [OF assms] by simp
  obtain s2 where "s = openflash_reset s2"
    using assms by (auto simp: openflash_realize_def Let_def split: if_splits sum.splits prod.splits option.splits)
  then show "admin_reset s" by (simp add: admin_reset_def openflash_reset_eq zero_queue_def)
qed

definition boot_world :: "board world" where
  "boot_world = \<lparr>w_mem = (\<lambda>_. 7), w_dev = (blank_host, fresh_device), w_log = []\<rparr>"

lemma boot_probe: "\<exists>fd w'. openflash_probe board_kernel boot_world = Some (0, Some fd, w')"
  using realize_ready [OF realize_blank] by (intro board_probe_succeeds) (simp_all add: boot_world_def)

definition demo_request :: request where
  "demo_request = \<lparr>rq_tag = 0, rq_op = REQ_OP_FLUSH, rq_fua = False, rq_pos = 0, rq_bytes = 0, rq_nr_phys_segments = 0, rq_segments = []\<rparr>"

theorem requests_accounted_witness:
  "\<exists>fd w. openflash_probe board_kernel boot_world = Some (0, Some fd, w) \<and> driver_run board_kernel fd w \<and>
    tally (start_weight demo_request) (w_log w) =
      (if rq_tag demo_request < length (hq_requests (hq fd 1)) \<and>
          r_rq (hq_requests (hq fd 1) ! rq_tag demo_request) = Some demo_request then 1 else 0)"
proof -
  obtain fd w where p: "openflash_probe board_kernel boot_world = Some (0, Some fd, w)" using boot_probe by blast
  have r: "driver_run board_kernel fd w" by (rule driver_run.probed [OF _ p]) (simp add: boot_world_def)
  show ?thesis using p r requests_accounted [OF r, of demo_request] by blast
qed



end
