(* ===== verification/Spec2Isabelle.thy ===== *)
theory Spec2Isabelle
  imports Driver_Spec
begin

text \<open>
  A verification library for the OpenFlash controller lab: a QEMU PCI block controller
  (\<^verbatim>\<open>src/qemu/hw/block/openflash.c\<close>), the Linux block driver for it
  (\<^verbatim>\<open>src/driver/openflash/openflash_queue.c\<close>, \<^verbatim>\<open>openflash_core.c\<close>, \<^verbatim>\<open>openflash.h\<close>) and the ABI header both
  sides follow (\<^verbatim>\<open>openflash_abi.h\<close>).

  \<^bold>\<open>How the parts interact.\<close>  The driver allocates rings and payload lists in memory, programs the admin
  ring registers in BAR0, and rings submission doorbells.  A doorbell write runs the controller: it fetches commands
  from memory by DMA, executes them on its storage, writes phase-tagged completions back and raises an interrupt.  The
  driver's handlers drain the completion rings, release the DMA mappings and end the requests of the block layer.

  \<^bold>\<open>The device.\<close>
  \<^item> \<open>Prelude\<close>: byte codecs of little-endian words, memory as a function from bus addresses to
    bytes (\<open>mem_load\<close>, \<open>mem_store\<close>, \<open>apart\<close>), and generic list and word lemmas.
  \<^item> \<open>Abi\<close>: the constants, enumerations and packed structures of \<^verbatim>\<open>openflash_abi.h\<close>; the locale
    \<open>packed_struct\<close> is the contract of an encoding.
  \<^item> \<open>Platform\<close>: what QEMU and GLib provide (\<^verbatim>\<open>pci_dma_read\<close>, \<^verbatim>\<open>pci_dma_write\<close>,
    \<^verbatim>\<open>g_file_set_contents\<close>, \<^verbatim>\<open>msix_init\<close> and so on) as a record of functions on a host.
    Locales \<open>dma_buffer\<close>, \<open>guest_memory\<close> and \<open>image_file\<close> hold the documented laws;
    \<open>ram_platform\<close> is an instance that satisfies them.
  \<^item> \<open>Device_State\<close>: constants, wire structures and \<open>OpenFlashState\<close> of \<^verbatim>\<open>openflash.c\<close>, and reset.
  \<^item> \<open>Wire\<close>: driver and device agree on structures and constants.
  \<^item> \<open>Media\<close>: \<open>openflash_execute\<close> and everything below it: READ, WRITE, FLUSH, DISCARD, IDENTIFY, CREATE_IOQ
    on direct and scatter-gather payloads.  C pointer accesses are checked: an access outside the storage or a
    division by zero is the value \<open>Inl fault\<close>.  \<open>Media_Spec\<close> has its properties.
  \<^item> \<open>Controller\<close>: fetching, \<open>process_one\<close>, the doorbell loop, both register handlers, realize and exit.
    The doorbell loop may run forever, so it is a \<open>partial_function (option)\<close>, and \<open>None\<close> means that the register
    write does not return.  \<open>Controller_Spec\<close> has its properties.

  \<^bold>\<open>The driver.\<close>
  \<^item> \<open>Kernel\<close>: the world of the driver (memory, the device behind BAR0, the history of kernel calls) and the
    record \<open>env\<close> of everything the driver relies on and this repository does not contain.
    \<open>tally\<close> sums a weight over the history; it measures what is allocated, mapped, locked or in flight.
  \<^item> \<open>Host_Queue\<close>, \<open>Host_Block\<close>: every function of \<^verbatim>\<open>openflash_queue.c\<close> and \<^verbatim>\<open>openflash_core.c\<close>, with every
    error path.  The completion loops are \<open>partial_function (option)\<close> and proved to return.
  \<^item> \<open>Phase_Ring\<close>: the phase-tagged ring as a contract between a producer and a consumer; interpreted for the
    device cursor and for both driver cursors.  \<open>Host_Ring\<close>: both drain loops end.
  \<^item> \<open>Host_Inv\<close>, \<open>Host_Probe\<close>: the invariant of the driver (request table, lock, start and end accounting) and that
    every operation keeps it against an arbitrary device.

  \<^bold>\<open>The composition.\<close>  \<open>Board_Ring\<close>, \<open>Board_Admin\<close>, \<open>Board_Setup\<close>, \<open>Board_Probe\<close> put the modelled controller
  behind the modelled driver's BAR0: register writes of the driver run the device's handlers on the same memory.
  The locale \<open>board_env\<close> has the laws of the kernel this needs (coherent buffers do not overlap); \<open>Board_Kernel\<close>
  interprets it on a concrete kernel with a bump allocator, on which probe succeeds.  \<open>board_inv\<close> says that driver
  and device agree on rings, cursors and phases, and which requests are waiting for their completions.
  \<open>Driver_Spec\<close> has the properties.

  \<^bold>\<open>Bounds and fuel.\<close>  Machine integers keep their widths.  No loop of the model is cut short: loops whose end is
  not evident from their arguments are \<open>partial_function (option)\<close>, and that they return is a theorem.  The number of polls,
  of interrupts during a wait and of requests in flight are arbitrary, as answered by the environment.

  \<^bold>\<open>Not modelled.\<close>
  \<^item> The QEMU object model boilerplate of \<^verbatim>\<open>openflash.c\<close> and the module tables of the driver: they only hand the modelled
    functions to QEMU and Linux.
  \<^item> Preemption inside a driver function: handlers and process-context functions run one after the other and meet only
    where the driver waits; the locks they take are entries of the history.
  \<^item> The Python simulator under \<^verbatim>\<open>src/src/openflash\<close>: a separate performance and reliability model, which shares no code
    with the driver and the device.
  \<^item> The QTest program: a test of the device.
\<close>

end
